theory Spec2Isabelle
  imports Main "HOL-Library.Word" "HOL-Library.Sublist" "HOL-Library.Multiset"
begin

section \<open>Data model\<close>

text \<open>
  The image pipeline of \<^verbatim>\<open>internal/toolset\<close>: raw files extracted from a PDF are
  deduplicated by the SHA-256 of their bytes and either copied verbatim (format
  \<^verbatim>\<open>original\<close>) or decoded, converted to RGBA and re-encoded by a pool of worker
  goroutines (formats \<^verbatim>\<open>png\<close> and \<^verbatim>\<open>webp\<close>).

  Go strings and byte slices are byte sequences. File names and format names are
  \<^typ>\<open>string\<close>s, file contents are lists of 8-bit words.
\<close>

type_synonym byte = "8 word"

text \<open>
  Go errors. \<open>Errno\<close> is a failure of a system call as \<^verbatim>\<open>os.Mkdir\<close>, \<^verbatim>\<open>os.ReadFile\<close> or
  \<^verbatim>\<open>os.WriteFile\<close> report it, \<open>External\<close> a failure reported by a library (pdfcpu,
  \<^verbatim>\<open>image.Decode\<close>, the png and webp encoders), \<open>Errorf\<close> a fresh error made by
  \<^verbatim>\<open>fmt.Errorf\<close> from a message, and \<open>Wrapf p e\<close> the error \<^verbatim>\<open>fmt.Errorf("p: %w", e)\<close>.
\<close>

datatype errno = EEXIST | ENOTEMPTY | EACCES | ENOENT | ENOSPC | EIO

datatype error =
    Errno errno
  | External string
  | Errorf string
  | Wrapf string error

text \<open>
  \<^verbatim>\<open>os.IsExist\<close> looks at the system error below a path error only (it does not unwrap
  errors made by \<^verbatim>\<open>fmt.Errorf\<close>) and holds for \<^verbatim>\<open>EEXIST\<close> and \<^verbatim>\<open>ENOTEMPTY\<close>.
\<close>

fun IsExist :: "error \<Rightarrow> bool" where
  "IsExist (Errno e) = (e = EEXIST \<or> e = ENOTEMPTY)"
| "IsExist _ = False"

text \<open>An entry of \<^verbatim>\<open>os.ReadDir\<close>: the methods \<^verbatim>\<open>Name()\<close> and \<^verbatim>\<open>IsDir()\<close> of \<^verbatim>\<open>os.DirEntry\<close>.\<close>

record DirEntry =
  Name :: string
  IsDir :: bool

text \<open>\<^verbatim>\<open>LoadedImage\<close>: the image converted to RGBA and the hash of the file it came from.\<close>

record 'rgba LoadedImage =
  Img :: 'rgba
  FileHash :: string

text \<open>
  \<^verbatim>\<open>WriteTask\<close>, the local struct of \<^verbatim>\<open>processImagesConcurrently\<close>. Its image field is
  called \<open>TaskImg\<close> here, \<open>Img\<close> being the field of \<open>LoadedImage\<close>.
\<close>

datatype 'rgba WriteTask = WriteTask (Index: nat) (TaskImg: 'rgba)

text \<open>
  \<^verbatim>\<open>ImageEncoder\<close>. \<open>Encode\<close> gives the bytes the encoder wrote to its writer before it
  returned and the error it returned, if any; \<open>Extension\<close> is the file extension.
\<close>

record 'rgba ImageEncoder =
  Encode :: "'rgba \<Rightarrow> byte list \<times> error option"
  Extension :: string

text \<open>
  The calls that leave the process, in the order they are made. A write that failed is
  recorded as \<open>EvWriteFailed\<close>; a file is given by its directory and its name, the two
  arguments of \<^verbatim>\<open>filepath.Join\<close>.
\<close>

datatype event =
    EvMkdir string
  | EvMkdirTemp
  | EvExtractImagesFile string string
  | EvReadDir string
  | EvReadFile string string
  | EvWriteFile string string "byte list"
  | EvWriteFailed string string
  | EvPrintf string
  | EvRemoveAll string

text \<open>
  What the operating system and the libraries answer. Every field is the result of the
  call named in its comment; \<open>'img\<close> is a decoded \<^verbatim>\<open>image.Image\<close>, \<open>'rgba\<close> an
  \<^verbatim>\<open>*image.RGBA\<close>.
\<close>

record ('img, 'rgba) env =
  mkdir :: "string \<Rightarrow> error option"                     \<comment> \<open>\<^verbatim>\<open>os.Mkdir(dir, 0755)\<close>\<close>
  mkdirTemp :: "error + string"                          \<comment> \<open>\<^verbatim>\<open>os.MkdirTemp("", "pdfimg")\<close>\<close>
  extractImagesFile :: "string \<Rightarrow> string \<Rightarrow> error option" \<comment> \<open>\<^verbatim>\<open>api.ExtractImagesFile\<close>\<close>
  readDir :: "string \<Rightarrow> error + DirEntry list"          \<comment> \<open>\<^verbatim>\<open>os.ReadDir\<close>, sorted by name\<close>
  readFile :: "string \<Rightarrow> string \<Rightarrow> error + byte list"  \<comment> \<open>\<^verbatim>\<open>os.ReadFile(filepath.Join(dir, name))\<close>\<close>
  writeFile :: "string \<Rightarrow> string \<Rightarrow> byte list \<Rightarrow> error option" \<comment> \<open>\<^verbatim>\<open>os.WriteFile\<close>\<close>
  decode :: "byte list \<Rightarrow> error + 'img"               \<comment> \<open>\<^verbatim>\<open>image.Decode\<close>\<close>
  asRGBA :: "'img \<Rightarrow> 'rgba option"                     \<comment> \<open>the type assertion \<^verbatim>\<open>img.(*image.RGBA)\<close>\<close>
  drawSrc :: "'img \<Rightarrow> 'rgba"                           \<comment> \<open>\<^verbatim>\<open>image.NewRGBA\<close> and \<^verbatim>\<open>draw.Draw\<close>\<close>
  sha256hex :: "byte list \<Rightarrow> string"                   \<comment> \<open>SHA-256, printed with \<^verbatim>\<open>%x\<close>\<close>
  pngEncode :: "'rgba \<Rightarrow> byte list \<times> error option"     \<comment> \<open>\<^verbatim>\<open>png.Encoder.Encode\<close>, no compression\<close>
  webpEncode :: "'rgba \<Rightarrow> byte list \<times> error option"    \<comment> \<open>\<^verbatim>\<open>webp.Encode\<close>, lossless, quality 100\<close>
  getenv :: "string \<Rightarrow> string"                         \<comment> \<open>\<^verbatim>\<open>os.Getenv\<close>\<close>
  atoi :: "string \<Rightarrow> error + int"                      \<comment> \<open>\<^verbatim>\<open>strconv.Atoi\<close>\<close>
  unicodeToLower :: "string \<Rightarrow> string"                 \<comment> \<open>\<^verbatim>\<open>strings.Map(unicode.ToLower, s)\<close>\<close>

section \<open>Strings and file names\<close>

text \<open>
  \<^verbatim>\<open>strings.ToLower\<close>, as the Go library has it. A string of bytes below
  \<^verbatim>\<open>utf8.RuneSelf\<close> (128) is lowered byte by byte: the letters A to Z are mapped to a to z
  and every other byte is kept. A string with a byte from 128 on is handed to
  \<^verbatim>\<open>strings.Map(unicode.ToLower, s)\<close>, which decodes it as UTF-8 and lowers every letter of
  Unicode by the tables of the library; that function is taken from the environment.
\<close>

definition isASCII :: "string \<Rightarrow> bool" where
  "isASCII s = list_all (\<lambda>c. (of_char c :: nat) < 128) s"

definition toLowerByte :: "char \<Rightarrow> char" where
  "toLowerByte c =
     (let n = (of_char c :: nat) in if 65 \<le> n \<and> n \<le> 90 then char_of (n + 32) else c)"

definition ToLower :: "('img, 'rgba) env \<Rightarrow> string \<Rightarrow> string" where
  "ToLower env s = (if isASCII s then map toLowerByte s else unicodeToLower env s)"

text \<open>
  \<^verbatim>\<open>filepath.Ext\<close>: scanning from the end of the path and stopping at a path separator,
  the suffix that starts at the first dot met, and the empty string when there is none.
  \<open>extScan\<close> runs over the reversed path and keeps the bytes passed so far.
\<close>

fun extScan :: "string \<Rightarrow> string \<Rightarrow> string" where
  "extScan [] acc = []"
| "extScan (c # cs) acc =
     (if c = CHR ''/'' then []
      else if c = CHR ''.'' then c # acc
      else extScan cs (c # acc))"

definition Ext :: "string \<Rightarrow> string" where
  "Ext path = extScan (rev path) []"

text \<open>
  \<^verbatim>\<open>%d\<close> and \<^verbatim>\<open>%04d\<close> of \<^verbatim>\<open>fmt\<close> on a number that is not negative: the decimal digits, and
  the decimal digits padded with zeros on the left to four characters (a number of more
  than four digits is printed whole).
\<close>

fun digits :: "nat \<Rightarrow> string" where
  "digits n =
     (if n < 10 then [''0123456789'' ! n]
      else digits (n div 10) @ [''0123456789'' ! (n mod 10)])"

declare digits.simps [simp del]

definition pad04 :: "nat \<Rightarrow> string" where
  "pad04 n = (let ds = digits n in replicate (4 - length ds) (CHR ''0'') @ ds)"

text \<open>\<^verbatim>\<open>fmt.Sprintf("image_%04d%s", n, ext)\<close>.\<close>

definition imageName :: "nat \<Rightarrow> string \<Rightarrow> string" where
  "imageName n ext = ''image_'' @ pad04 n @ ext"

text \<open>\<^verbatim>\<open>fmt.Sprintf("skipped %d duplicate image(s)\n", dupCount)\<close>.\<close>

definition skippedMessage :: "nat \<Rightarrow> string" where
  "skippedMessage dupCount = ''skipped '' @ digits dupCount @ '' duplicate image(s)'' @ [CHR 0x0A]"

text \<open>\<^verbatim>\<open>isImageFile\<close>.\<close>

definition isImageFile :: "('img, 'rgba) env \<Rightarrow> string \<Rightarrow> bool" where
  "isImageFile env filename =
     (let ext = ToLower env (Ext filename)
      in ext = ''.png'' \<or> ext = ''.jpg'' \<or> ext = ''.jpeg'' \<or> ext = ''.gif'' \<or> ext = ''.bmp''
         \<or> ext = ''.tiff'' \<or> ext = ''.webp'')"

text \<open>\<^verbatim>\<open>hashBytes\<close>: the SHA-256 of the bytes in hexadecimal.\<close>

definition hashBytes :: "('img, 'rgba) env \<Rightarrow> byte list \<Rightarrow> string" where
  "hashBytes env data = sha256hex env data"

text \<open>\<^verbatim>\<open>toRGBA\<close>: an image that is an \<^verbatim>\<open>*image.RGBA\<close> already is returned as it is.\<close>

definition toRGBA :: "('img, 'rgba) env \<Rightarrow> 'img \<Rightarrow> 'rgba" where
  "toRGBA env img = (case asRGBA env img of Some rgba \<Rightarrow> rgba | None \<Rightarrow> drawSrc env img)"

section \<open>Encoder registry\<close>

definition PNGEncoder :: "('img, 'rgba) env \<Rightarrow> 'rgba ImageEncoder" where
  "PNGEncoder env = \<lparr>Encode = pngEncode env, Extension = ''.png''\<rparr>"

definition WebPEncoder :: "('img, 'rgba) env \<Rightarrow> 'rgba ImageEncoder" where
  "WebPEncoder env = \<lparr>Encode = webpEncode env, Extension = ''.webp''\<rparr>"

definition encoderRegistry :: "('img, 'rgba) env \<Rightarrow> string \<rightharpoonup> 'rgba ImageEncoder" where
  "encoderRegistry env = [''png'' \<mapsto> PNGEncoder env, ''webp'' \<mapsto> WebPEncoder env]"

text \<open>\<^verbatim>\<open>GetEncoder\<close>: the name is lowered first, and the error names the lowered format.\<close>

definition GetEncoder :: "('img, 'rgba) env \<Rightarrow> string \<Rightarrow> error + 'rgba ImageEncoder" where
  "GetEncoder env format =
     (let format = ToLower env format
      in case encoderRegistry env format of
           None \<Rightarrow> Inl (Errorf (''unsupported format: '' @ format))
         | Some encoder \<Rightarrow> Inr encoder)"

section \<open>Deduplication of the loaded images\<close>

text \<open>
  The loop of \<^verbatim>\<open>extractImagesConcurrent\<close> over \<^verbatim>\<open>loadedImages\<close>: \<open>seen\<close> is the Go map
  from hashes to booleans (a missing key reads as false), \<open>dupCount\<close> the number of
  images dropped and \<open>uniqueImages\<close> the slice appended to.
\<close>

fun dedupLoop ::
  "'rgba LoadedImage list \<Rightarrow> (string \<Rightarrow> bool) \<Rightarrow> nat \<Rightarrow> 'rgba LoadedImage list
     \<Rightarrow> nat \<times> 'rgba LoadedImage list" where
  "dedupLoop [] seen dupCount uniqueImages = (dupCount, uniqueImages)"
| "dedupLoop (li # rest) seen dupCount uniqueImages =
     (if seen (FileHash li) then dedupLoop rest seen (dupCount + 1) uniqueImages
      else dedupLoop rest (seen(FileHash li := True)) dupCount (uniqueImages @ [li]))"

definition deduplicate :: "'rgba LoadedImage list \<Rightarrow> nat \<times> 'rgba LoadedImage list" where
  "deduplicate loadedImages = dedupLoop loadedImages (\<lambda>_. False) 0 []"

section \<open>Buffer pool and writer\<close>

text \<open>
  The state of the process outside the call stack: the buffers that lie in the package
  variable \<^verbatim>\<open>bufferPool\<close> (a \<^verbatim>\<open>sync.Pool\<close> of \<^verbatim>\<open>bytes.Buffer\<close>s, each given by its
  contents), and the calls made so far.
\<close>

type_synonym buffer = "byte list"

record world =
  bufferPool :: "buffer list"
  trace :: "event list"

definition emit :: "event \<Rightarrow> world \<Rightarrow> world" where
  "emit ev w = w\<lparr>trace := trace w @ [ev]\<rparr>"

text \<open>
  \<^verbatim>\<open>getBuffer\<close>. \<^verbatim>\<open>sync.Pool.Get\<close> hands out any one of the pooled buffers, removing it from
  the pool, or calls \<^verbatim>\<open>New\<close>, which makes an empty buffer. The choice is the number \<open>k\<close>:
  the \<open>k\<close>-th pooled buffer, and a new one when there is no such buffer. (The runtime may
  also drop pooled buffers; a checkout then gets a new buffer, as it does here for a large
  \<open>k\<close>.)
\<close>

definition getBuffer :: "nat \<Rightarrow> buffer list \<Rightarrow> buffer \<times> buffer list" where
  "getBuffer k pool =
     (if k < length pool then (pool ! k, take k pool @ drop (Suc k) pool) else ([], pool))"

text \<open>\<^verbatim>\<open>bytes.Buffer.Reset\<close> empties the buffer; \<^verbatim>\<open>putBuffer\<close> resets, then puts.\<close>

definition Reset :: "buffer \<Rightarrow> buffer" where
  "Reset buf = []"

definition putBuffer :: "buffer \<Rightarrow> buffer list \<Rightarrow> buffer list" where
  "putBuffer buf pool = Reset buf # pool"

text \<open>
  \<^verbatim>\<open>writeImageFile\<close>. The encoder writes to the buffer taken from the pool, that is, it
  appends to what the buffer holds; the deferred \<^verbatim>\<open>putBuffer\<close> runs on both returns, after
  the bytes of the buffer were handed to \<^verbatim>\<open>os.WriteFile\<close>. The file is named by
  \<open>index + 1\<close>.
\<close>

definition writeImageFile ::
  "('img, 'rgba) env \<Rightarrow> nat \<Rightarrow> 'rgba \<Rightarrow> 'rgba ImageEncoder \<Rightarrow> string \<Rightarrow> nat \<Rightarrow> world
     \<Rightarrow> error option \<times> world" where
  "writeImageFile env k img encoder imgDir index w =
     (let (buf, pool) = getBuffer k (bufferPool w);
          (written, err) = Encode encoder img;
          buf = buf @ written
      in case err of
           Some e \<Rightarrow> (Some (Wrapf ''encode'' e), w\<lparr>bufferPool := putBuffer buf pool\<rparr>)
         | None \<Rightarrow>
             (let ext = Extension encoder;
                  outName = imageName (index + 1) ext
              in case writeFile env imgDir outName buf of
                   Some e \<Rightarrow>
                     (Some e, emit (EvWriteFailed imgDir outName) (w\<lparr>bufferPool := putBuffer buf pool\<rparr>))
                 | None \<Rightarrow>
                     (None, emit (EvWriteFile imgDir outName buf) (w\<lparr>bufferPool := putBuffer buf pool\<rparr>))))"

section \<open>Worker pool\<close>

text \<open>
  \<^verbatim>\<open>getWorkerCount\<close>: the value of \<^verbatim>\<open>PIXF_WORKERS\<close> when it parses as a positive number,
  and 4 otherwise.
\<close>

definition getWorkerCount :: "('img, 'rgba) env \<Rightarrow> nat" where
  "getWorkerCount env =
     (let val = getenv env ''PIXF_WORKERS''
      in if val \<noteq> [] then
           (case atoi env val of
              Inr n \<Rightarrow> if n > 0 then nat n else 4
            | Inl err \<Rightarrow> 4)
         else 4)"

text \<open>
  The goroutines of \<^verbatim>\<open>processImagesConcurrently\<close> run interleaved; the channels and the
  atomic flag are their only shared variables, apart from the buffer pool. A worker is at
  one of these places of its loop:
  \<^item> \<open>Idle\<close>: at the receive of \<^verbatim>\<open>for task := range taskChan\<close>;
  \<^item> \<open>Got t\<close>: task \<open>t\<close> received, before \<^verbatim>\<open>failed.Load()\<close>;
  \<^item> \<open>Running t\<close>: the flag was read as false, \<^verbatim>\<open>writeImageFile\<close> is running;
  \<^item> \<open>Returned r\<close>: \<^verbatim>\<open>writeImageFile\<close> returned \<open>r\<close>;
  \<^item> \<open>Stored e\<close>: \<^verbatim>\<open>failed.Store(true)\<close> done, before \<^verbatim>\<open>resultChan <- err\<close>;
  \<^item> \<open>Exited\<close>: the goroutine returned.
\<close>

datatype 'rgba phase =
    Idle
  | Got "'rgba WriteTask"
  | Running "'rgba WriteTask"
  | Returned "error option"
  | Stored error
  | Exited

text \<open>
  The state of one batch. \<open>pending\<close> are the tasks the main goroutine has still to send,
  \<open>taskChan\<close> the tasks in the channel's buffer, \<open>resultChan\<close> every value sent on the
  result channel, in the order of sending. Both channels have room for all tasks, so no
  send blocks.
\<close>

record 'rgba batch =
  pending :: "'rgba WriteTask list"
  taskChan :: "'rgba WriteTask list"
  taskChanClosed :: bool
  workers :: "'rgba phase list"
  failed :: bool
  resultChan :: "error option list"
  world :: world

text \<open>
  Who moves next: the main goroutine, which sends the tasks and closes the channel, or
  worker \<open>i\<close>; the second number of \<open>Worker\<close> is the choice of \<^verbatim>\<open>sync.Pool.Get\<close> should
  the worker take a buffer in this move.
\<close>

datatype actor = Main | Worker nat nat

text \<open>
  One move of a goroutine. A goroutine that cannot move (a worker at an empty channel
  that is still open, a worker that has returned, the main goroutine after the close)
  leaves the state as it is. A call of \<^verbatim>\<open>writeImageFile\<close> is one move: the buffer it
  took is out of the pool for the whole call and the name of its file belongs to its task
  alone, so the calls of different workers do not touch each other.
\<close>

definition workerStep ::
  "('img, 'rgba) env \<Rightarrow> 'rgba ImageEncoder \<Rightarrow> string \<Rightarrow> nat \<Rightarrow> nat \<Rightarrow> 'rgba batch \<Rightarrow> 'rgba batch" where
  "workerStep env encoder imgDir i k s =
     (case workers s ! i of
        Idle \<Rightarrow>
          (case taskChan s of
             task # rest \<Rightarrow> s\<lparr>taskChan := rest, workers := (workers s)[i := Got task]\<rparr>
           | [] \<Rightarrow> if taskChanClosed s then s\<lparr>workers := (workers s)[i := Exited]\<rparr> else s)
      | Got task \<Rightarrow>
          if failed s then s\<lparr>workers := (workers s)[i := Exited]\<rparr>
          else s\<lparr>workers := (workers s)[i := Running task]\<rparr>
      | Running task \<Rightarrow>
          (let (err, w) = writeImageFile env k (TaskImg task) encoder imgDir (Index task) (world s)
           in s\<lparr>workers := (workers s)[i := Returned err], world := w\<rparr>)
      | Returned err \<Rightarrow>
          (case err of
             Some e \<Rightarrow> s\<lparr>failed := True, workers := (workers s)[i := Stored e]\<rparr>
           | None \<Rightarrow> s\<lparr>resultChan := resultChan s @ [None], workers := (workers s)[i := Idle]\<rparr>)
      | Stored e \<Rightarrow> s\<lparr>resultChan := resultChan s @ [Some e], workers := (workers s)[i := Idle]\<rparr>
      | Exited \<Rightarrow> s)"

definition mainStep :: "'rgba batch \<Rightarrow> 'rgba batch" where
  "mainStep s =
     (case pending s of
        task # rest \<Rightarrow> s\<lparr>pending := rest, taskChan := taskChan s @ [task]\<rparr>
      | [] \<Rightarrow> s\<lparr>taskChanClosed := True\<rparr>)"

fun step ::
  "('img, 'rgba) env \<Rightarrow> 'rgba ImageEncoder \<Rightarrow> string \<Rightarrow> actor \<Rightarrow> 'rgba batch \<Rightarrow> 'rgba batch" where
  "step env encoder imgDir Main s = (if taskChanClosed s then s else mainStep s)"
| "step env encoder imgDir (Worker i k) s =
     (if i < length (workers s) then workerStep env encoder imgDir i k s else s)"

text \<open>A schedule is the order in which the goroutines move.\<close>

definition exec ::
  "('img, 'rgba) env \<Rightarrow> 'rgba ImageEncoder \<Rightarrow> string \<Rightarrow> actor list \<Rightarrow> 'rgba batch \<Rightarrow> 'rgba batch" where
  "exec env encoder imgDir sched s = foldl (\<lambda>s a. step env encoder imgDir a s) s sched"

text \<open>
  The batch is over when the task channel is closed and every worker has returned:
  \<^verbatim>\<open>wg.Wait()\<close> returns and the result channel is closed.
\<close>

definition finished :: "'rgba batch \<Rightarrow> bool" where
  "finished s = (taskChanClosed s \<and> list_all (\<lambda>p. p = Exited) (workers s))"

text \<open>
  A goroutine that can move, when the batch is not over: the main goroutine until it has
  closed the channel, and then the first worker that has not returned.
\<close>

definition nextActor :: "'rgba batch \<Rightarrow> actor option" where
  "nextActor s =
     (if \<not> taskChanClosed s then Some Main
      else map_option (\<lambda>i. Worker i 0)
             (find (\<lambda>i. workers s ! i \<noteq> Exited) [0..<length (workers s)]))"

text \<open>The moves that are left at most: every move of a goroutine that can move takes one.\<close>

fun phaseWeight :: "'rgba phase \<Rightarrow> nat" where
  "phaseWeight Exited = 0"
| "phaseWeight Idle = 1"
| "phaseWeight (Stored e) = 2"
| "phaseWeight (Returned r) = 3"
| "phaseWeight (Running t) = 4"
| "phaseWeight (Got t) = 5"

definition remainingWork :: "'rgba batch \<Rightarrow> nat" where
  "remainingWork s =
     6 * length (pending s) + 5 * length (taskChan s) + (if taskChanClosed s then 0 else 1)
     + sum_list (map phaseWeight (workers s))"

text \<open>
  Every schedule is finite, and \<open>drain\<close> lets the goroutines that can still move finish
  the batch; a run of the batch is a schedule followed by \<open>drain\<close>. A schedule that ends
  in a finished state is a run by itself.
\<close>

lemma weight_update:
  "i < length ps \<Longrightarrow>
     sum_list (map phaseWeight (ps[i := p])) + phaseWeight (ps ! i)
       = sum_list (map phaseWeight ps) + phaseWeight p"
proof (induction ps arbitrary: i)
  case Nil
  then show ?case by simp
next
  case (Cons q qs)
  show ?case
  proof (cases i)
    case 0
    then show ?thesis by simp
  next
    case (Suc j)
    with Cons.prems have "j < length qs" by simp
    from Cons.IH [OF this] Suc show ?thesis by simp
  qed
qed

lemma mainStep_less:
  "\<not> taskChanClosed s \<Longrightarrow> remainingWork (mainStep s) < remainingWork s"
  by (cases "pending s") (simp_all add: mainStep_def remainingWork_def)

lemma workerStep_less:
  assumes i: "i < length (workers s)" and ne: "workers s ! i \<noteq> Exited"
    and closed: "taskChanClosed s"
  shows "remainingWork (workerStep env encoder imgDir i k s) < remainingWork s"
proof (cases "workers s ! i")
  case Idle
  show ?thesis
  proof (cases "taskChan s")
    case Nil
    with Idle closed weight_update [OF i, of Exited] show ?thesis
      by (simp add: workerStep_def remainingWork_def)
  next
    case (Cons t ts)
    with Idle weight_update [OF i, of "Got t"] show ?thesis
      by (simp add: workerStep_def remainingWork_def)
  qed
next
  case (Got t)
  with weight_update [OF i, of Exited] weight_update [OF i, of "Running t"] show ?thesis
    by (simp add: workerStep_def remainingWork_def)
next
  case (Running t)
  obtain err w where wr: "writeImageFile env k (TaskImg t) encoder imgDir (Index t) (world s) = (err, w)"
    by (cases "writeImageFile env k (TaskImg t) encoder imgDir (Index t) (world s)")
  with Running weight_update [OF i, of "Returned err"] show ?thesis
    by (simp add: workerStep_def remainingWork_def)
next
  case (Returned r)
  show ?thesis
  proof (cases r)
    case None
    with Returned weight_update [OF i, of Idle] show ?thesis
      by (simp add: workerStep_def remainingWork_def)
  next
    case (Some e)
    with Returned weight_update [OF i, of "Stored e"] show ?thesis
      by (simp add: workerStep_def remainingWork_def)
  qed
next
  case (Stored e)
  with weight_update [OF i, of Idle] show ?thesis
    by (simp add: workerStep_def remainingWork_def)
next
  case Exited
  with ne show ?thesis by simp
qed

lemma nextActor_Worker:
  "nextActor s = Some (Worker i k) \<Longrightarrow>
     taskChanClosed s \<and> i < length (workers s) \<and> workers s ! i \<noteq> Exited \<and> k = 0"
  by (auto simp: nextActor_def find_Some_iff split: if_splits)

lemma nextActor_Main: "nextActor s = Some Main \<Longrightarrow> \<not> taskChanClosed s"
  by (auto simp: nextActor_def split: if_splits)

lemma step_less:
  "nextActor s = Some a \<Longrightarrow> remainingWork (step env encoder imgDir a s) < remainingWork s"
proof (cases a)
  case Main
  assume "nextActor s = Some a"
  with Main have "\<not> taskChanClosed s" by (simp add: nextActor_Main)
  with Main show ?thesis by (simp add: mainStep_less)
next
  case (Worker i k)
  assume "nextActor s = Some a"
  with Worker have "taskChanClosed s \<and> i < length (workers s) \<and> workers s ! i \<noteq> Exited"
    using nextActor_Worker by blast
  with Worker show ?thesis by (simp add: workerStep_less)
qed

function drain ::
  "('img, 'rgba) env \<Rightarrow> 'rgba ImageEncoder \<Rightarrow> string \<Rightarrow> 'rgba batch \<Rightarrow> 'rgba batch" where
  "drain env encoder imgDir s =
     (case nextActor s of
        None \<Rightarrow> s
      | Some a \<Rightarrow> drain env encoder imgDir (step env encoder imgDir a s))"
  by pat_completeness auto

termination
  by (relation "measure (\<lambda>(env, encoder, imgDir, s). remainingWork s)") (auto simp: step_less)

declare drain.simps [simp del]

definition runWorkers ::
  "('img, 'rgba) env \<Rightarrow> 'rgba ImageEncoder \<Rightarrow> string \<Rightarrow> actor list \<Rightarrow> 'rgba batch \<Rightarrow> 'rgba batch" where
  "runWorkers env encoder imgDir sched s = drain env encoder imgDir (exec env encoder imgDir sched s)"

text \<open>
  The loop over the result channel: the channel delivers the results in the order they
  were sent, and \<open>sendErr\<close> keeps the first one that is an error.
\<close>

fun collectFirstError :: "error option list \<Rightarrow> error option \<Rightarrow> error option" where
  "collectFirstError [] sendErr = sendErr"
| "collectFirstError (err # rest) sendErr =
     collectFirstError rest (if err \<noteq> None \<and> sendErr = None then err else sendErr)"

text \<open>The tasks: task \<open>i\<close> carries the image of the \<open>i\<close>-th loaded image.\<close>

definition makeTasks :: "'rgba LoadedImage list \<Rightarrow> 'rgba WriteTask list" where
  "makeTasks loadedImages =
     map (\<lambda>(i, li). WriteTask i (Img li)) (zip [0..<length loadedImages] loadedImages)"

definition startBatch :: "'rgba WriteTask list \<Rightarrow> nat \<Rightarrow> world \<Rightarrow> 'rgba batch" where
  "startBatch tasks numWorkers w =
     \<lparr>pending = tasks, taskChan = [], taskChanClosed = False,
      workers = replicate numWorkers Idle, failed = False, resultChan = [], world = w\<rparr>"

text \<open>\<^verbatim>\<open>processImagesConcurrently\<close>, run under the schedule \<open>sched\<close>.\<close>

definition processImagesConcurrently ::
  "('img, 'rgba) env \<Rightarrow> actor list \<Rightarrow> 'rgba LoadedImage list \<Rightarrow> string \<Rightarrow> 'rgba ImageEncoder
     \<Rightarrow> world \<Rightarrow> error option \<times> world" where
  "processImagesConcurrently env sched loadedImages imgDir encoder w =
     (let tasks = makeTasks loadedImages;
          numWorkers = getWorkerCount env;
          s = runWorkers env encoder imgDir sched (startBatch tasks numWorkers w)
      in (collectFirstError (resultChan s) None, world s))"

section \<open>Re-encoding strategy\<close>

text \<open>
  The loop of \<^verbatim>\<open>extractImagesConcurrent\<close> over the directory entries: a file that is not
  an image file is passed over; the others are read once, decoded, converted and hashed.
\<close>

fun loadImages ::
  "('img, 'rgba) env \<Rightarrow> string \<Rightarrow> DirEntry list \<Rightarrow> 'rgba LoadedImage list \<Rightarrow> world
     \<Rightarrow> (error + 'rgba LoadedImage list) \<times> world" where
  "loadImages env tempDir [] loadedImages w = (Inr loadedImages, w)"
| "loadImages env tempDir (f # files) loadedImages w =
     (if \<not> isImageFile env (Name f) then loadImages env tempDir files loadedImages w
      else
        (case readFile env tempDir (Name f) of
           Inl err \<Rightarrow> (Inl (Wrapf ''read file data'' err), emit (EvReadFile tempDir (Name f)) w)
         | Inr fileData \<Rightarrow>
             (case decode env fileData of
                Inl err \<Rightarrow>
                  (Inl (Wrapf ''decode image'' err), emit (EvReadFile tempDir (Name f)) w)
              | Inr rawImg \<Rightarrow>
                  loadImages env tempDir files
                    (loadedImages @ [\<lparr>Img = toRGBA env rawImg, FileHash = hashBytes env fileData\<rparr>])
                    (emit (EvReadFile tempDir (Name f)) w))))"

text \<open>
  \<^verbatim>\<open>extractImagesConcurrent\<close>. The deferred \<^verbatim>\<open>os.RemoveAll(tempDir)\<close> runs on every return
  after the temporary directory was made.
\<close>

definition extractImagesConcurrent ::
  "('img, 'rgba) env \<Rightarrow> actor list \<Rightarrow> string \<Rightarrow> string \<Rightarrow> 'rgba ImageEncoder \<Rightarrow> world
     \<Rightarrow> error option \<times> world" where
  "extractImagesConcurrent env sched filename imgDir encoder w =
     (case mkdirTemp env of
        Inl err \<Rightarrow> (Some (Wrapf ''create temp dir'' err), emit EvMkdirTemp w)
      | Inr tempDir \<Rightarrow>
          (let (result, w) =
             (case extractImagesFile env filename tempDir of
                Some err \<Rightarrow>
                  (Some (Wrapf ''api.ExtractImagesFile'' err),
                   emit (EvExtractImagesFile filename tempDir) (emit EvMkdirTemp w))
              | None \<Rightarrow>
                  (case readDir env tempDir of
                     Inl err \<Rightarrow>
                       (Some (Wrapf ''read temp dir'' err),
                        emit (EvReadDir tempDir)
                          (emit (EvExtractImagesFile filename tempDir) (emit EvMkdirTemp w)))
                   | Inr files \<Rightarrow>
                       (case loadImages env tempDir files []
                               (emit (EvReadDir tempDir)
                                  (emit (EvExtractImagesFile filename tempDir) (emit EvMkdirTemp w))) of
                          (Inl err, w) \<Rightarrow> (Some err, w)
                        | (Inr loadedImages, w) \<Rightarrow>
                            if length loadedImages = 0 then (None, w)
                            else
                              (let (dupCount, uniqueImages) = deduplicate loadedImages;
                                   w = (if dupCount > 0 then emit (EvPrintf (skippedMessage dupCount)) w
                                        else w)
                               in processImagesConcurrently env sched uniqueImages imgDir encoder w))))
           in (result, emit (EvRemoveAll tempDir) w)))"

section \<open>Original-format strategy\<close>

text \<open>
  The loop of \<^verbatim>\<open>processExtractedFilesSequential\<close>. It returns the error that ended it or
  the number of duplicates it counted.
\<close>

fun sequentialLoop ::
  "('img, 'rgba) env \<Rightarrow> DirEntry list \<Rightarrow> string \<Rightarrow> string \<Rightarrow> (string \<Rightarrow> bool) \<Rightarrow> nat \<Rightarrow> nat
     \<Rightarrow> world \<Rightarrow> (error + nat) \<times> world" where
  "sequentialLoop env [] tempDir imgDir seen dupCount uniqueCount w = (Inr dupCount, w)"
| "sequentialLoop env (f # files) tempDir imgDir seen dupCount uniqueCount w =
     (if IsDir f \<or> \<not> isImageFile env (Name f)
      then sequentialLoop env files tempDir imgDir seen dupCount uniqueCount w
      else
        (case readFile env tempDir (Name f) of
           Inl err \<Rightarrow> (Inl (Wrapf ''read image'' err), emit (EvReadFile tempDir (Name f)) w)
         | Inr fileData \<Rightarrow>
             (let hash = hashBytes env fileData;
                  w = emit (EvReadFile tempDir (Name f)) w
              in if seen hash
                 then sequentialLoop env files tempDir imgDir seen (dupCount + 1) uniqueCount w
                 else
                   (let origExt = ToLower env (Ext (Name f));
                        origExt = (if origExt = [] then ''.png'' else origExt);
                        dstName = imageName uniqueCount origExt
                    in case writeFile env imgDir dstName fileData of
                         Some err \<Rightarrow>
                           (Inl (Wrapf ''write image'' err), emit (EvWriteFailed imgDir dstName) w)
                       | None \<Rightarrow>
                           sequentialLoop env files tempDir imgDir (seen(hash := True)) dupCount
                             (uniqueCount + 1) (emit (EvWriteFile imgDir dstName fileData) w)))))"

definition processExtractedFilesSequential ::
  "('img, 'rgba) env \<Rightarrow> DirEntry list \<Rightarrow> string \<Rightarrow> string \<Rightarrow> world \<Rightarrow> error option \<times> world" where
  "processExtractedFilesSequential env files tempDir imgDir w =
     (case sequentialLoop env files tempDir imgDir (\<lambda>_. False) 0 0 w of
        (Inl err, w) \<Rightarrow> (Some err, w)
      | (Inr dupCount, w) \<Rightarrow>
          (None, if dupCount > 0 then emit (EvPrintf (skippedMessage dupCount)) w else w))"

definition extractImagesOriginal ::
  "('img, 'rgba) env \<Rightarrow> string \<Rightarrow> string \<Rightarrow> world \<Rightarrow> error option \<times> world" where
  "extractImagesOriginal env filename imgDir w =
     (case mkdirTemp env of
        Inl err \<Rightarrow> (Some (Wrapf ''create temp dir'' err), emit EvMkdirTemp w)
      | Inr tempDir \<Rightarrow>
          (let (result, w) =
             (case extractImagesFile env filename tempDir of
                Some err \<Rightarrow>
                  (Some (Wrapf ''api.ExtractImagesFile'' err),
                   emit (EvExtractImagesFile filename tempDir) (emit EvMkdirTemp w))
              | None \<Rightarrow>
                  (case readDir env tempDir of
                     Inl err \<Rightarrow>
                       (Some (Wrapf ''read temp dir'' err),
                        emit (EvReadDir tempDir)
                          (emit (EvExtractImagesFile filename tempDir) (emit EvMkdirTemp w)))
                   | Inr files \<Rightarrow>
                       processExtractedFilesSequential env files tempDir imgDir
                         (emit (EvReadDir tempDir)
                            (emit (EvExtractImagesFile filename tempDir) (emit EvMkdirTemp w)))))
           in (result, emit (EvRemoveAll tempDir) w)))"

section \<open>Entry point\<close>

text \<open>
  \<^verbatim>\<open>ExtractImagesFromFile\<close>: the output directory is made first, and an error of
  \<^verbatim>\<open>os.Mkdir\<close> is returned unless \<^verbatim>\<open>os.IsExist\<close> holds of it; the formats \<^verbatim>\<open>original\<close> and
  the empty string take the sequential strategy; any other format is looked up in the
  registry before anything else is done.
\<close>

definition ExtractImagesFromFile ::
  "('img, 'rgba) env \<Rightarrow> actor list \<Rightarrow> string \<Rightarrow> string \<Rightarrow> string \<Rightarrow> world
     \<Rightarrow> error option \<times> world" where
  "ExtractImagesFromFile env sched filename imgDir format w =
     (let err = mkdir env imgDir;
          w = emit (EvMkdir imgDir) w
      in if err \<noteq> None \<and> \<not> IsExist (the err) then (err, w)
         else if format = ''original'' \<or> format = [] then extractImagesOriginal env filename imgDir w
         else
           (case GetEncoder env format of
              Inl err \<Rightarrow> (Some err, w)
            | Inr encoder \<Rightarrow> extractImagesConcurrent env sched filename imgDir encoder w))"

text \<open>What a run leaves: the files written to a directory, and the lines printed.\<close>

fun writtenFiles :: "string \<Rightarrow> event list \<Rightarrow> (string \<times> byte list) list" where
  "writtenFiles dir [] = []"
| "writtenFiles dir (EvWriteFile d name data # evs) =
     (if d = dir then (name, data) # writtenFiles dir evs else writtenFiles dir evs)"
| "writtenFiles dir (ev # evs) = writtenFiles dir evs"

fun printed :: "event list \<Rightarrow> string list" where
  "printed [] = []"
| "printed (EvPrintf line # evs) = line # printed evs"
| "printed (ev # evs) = printed evs"

fun readFiles :: "event list \<Rightarrow> (string \<times> string) list" where
  "readFiles [] = []"
| "readFiles (EvReadFile dir name # evs) = (dir, name) # readFiles evs"
| "readFiles (ev # evs) = readFiles evs"

text \<open>
  The entries the sequential loop does not pass over, and the bytes of an entry as
  \<^verbatim>\<open>os.ReadFile\<close> gives them.
\<close>

definition candidateFiles :: "('img, 'rgba) env \<Rightarrow> DirEntry list \<Rightarrow> DirEntry list" where
  "candidateFiles env files = filter (\<lambda>f. \<not> IsDir f \<and> isImageFile env (Name f)) files"

definition contentOf :: "('img, 'rgba) env \<Rightarrow> string \<Rightarrow> DirEntry \<Rightarrow> byte list" where
  "contentOf env tempDir f = (case readFile env tempDir (Name f) of Inr data \<Rightarrow> data | Inl err \<Rightarrow> [])"

text \<open>Every buffer that lies in the pool is empty.\<close>

definition poolClean :: "world \<Rightarrow> bool" where
  "poolClean w = list_all (\<lambda>buf. buf = []) (bufferPool w)"

text \<open>
  The task a worker holds (received and not yet written), the tasks of a batch that are
  not written yet, and the file the writer makes of a task when nothing fails.
\<close>

fun held :: "'rgba phase \<Rightarrow> 'rgba WriteTask multiset" where
  "held (Got task) = {#task#}"
| "held (Running task) = {#task#}"
| "held p = {#}"

definition openTasks :: "'rgba batch \<Rightarrow> 'rgba WriteTask multiset" where
  "openTasks s = mset (pending s) + mset (taskChan s) + sum_list (map held (workers s))"

definition fileOf :: "'rgba ImageEncoder \<Rightarrow> 'rgba WriteTask \<Rightarrow> string \<times> byte list" where
  "fileOf encoder task =
     (imageName (Index task + 1) (Extension encoder), fst (Encode encoder (TaskImg task)))"

definition world0 :: world where
  "world0 = \<lparr>bufferPool = [], trace = []\<rparr>"

section \<open>A sample environment\<close>

text \<open>
  A directory of three extracted files, \<^verbatim>\<open>a.png\<close>, \<^verbatim>\<open>b.png\<close> with the bytes of \<^verbatim>\<open>a.png\<close>, and
  \<^verbatim>\<open>c.jpg\<close> with other bytes; every call succeeds, and \<^verbatim>\<open>PIXF_WORKERS\<close> is 2. Images are
  stood for by numbers. All its names are ASCII, so \<open>unicodeToLower\<close> is never called; the
  identity stands in for it.
\<close>

definition sampleFiles :: "DirEntry list" where
  "sampleFiles =
     [\<lparr>Name = ''a.png'', IsDir = False\<rparr>, \<lparr>Name = ''b.png'', IsDir = False\<rparr>,
      \<lparr>Name = ''c.jpg'', IsDir = False\<rparr>]"

definition sampleEnv :: "(nat, nat) env" where
  "sampleEnv =
     \<lparr>mkdir = (\<lambda>dir. None),
      mkdirTemp = Inr ''tmp'',
      extractImagesFile = (\<lambda>filename dir. None),
      readDir = (\<lambda>dir. Inr sampleFiles),
      readFile = (\<lambda>dir name. Inr (if name = ''c.jpg'' then [2] else [1])),
      writeFile = (\<lambda>dir name data. None),
      decode = (\<lambda>data. Inr (length data + unat (hd data))),
      asRGBA = (\<lambda>img. None),
      drawSrc = (\<lambda>img. img),
      sha256hex = (\<lambda>data. if data = [1] then ''aa'' else ''cc''),
      pngEncode = (\<lambda>img. ([7, of_nat img], None)),
      webpEncode = (\<lambda>img. ([9, of_nat img], None)),
      getenv = (\<lambda>name. ''2''),
      atoi = (\<lambda>s. if s = ''2'' then Inr 2 else if s = ''3'' then Inr 3 else Inl (External ''invalid syntax'')),
      unicodeToLower = (\<lambda>s. s)\<rparr>"

section \<open>Vocabulary of the properties\<close>

text \<open>
  In every state of a batch that started with a clean pool, the pool is clean, and every
  file written is the file of a task of the batch.
\<close>

definition filesFromTasks ::
  "'rgba ImageEncoder \<Rightarrow> string \<Rightarrow> 'rgba WriteTask set \<Rightarrow> (string \<times> byte list) set \<Rightarrow> 'rgba batch \<Rightarrow> bool" where
  "filesFromTasks encoder imgDir T W s =
     (poolClean (world s) \<and> set_mset (openTasks s) \<subseteq> T
      \<and> set (writtenFiles imgDir (trace (world s))) \<subseteq> W \<union> fileOf encoder ` T)"

text \<open>
  For the tasks in \<open>T\<close> the encoder returns no error, and the write of the file succeeds.
\<close>

definition allSucceed ::
  "('img, 'rgba) env \<Rightarrow> 'rgba ImageEncoder \<Rightarrow> string \<Rightarrow> 'rgba WriteTask set \<Rightarrow> bool" where
  "allSucceed env encoder imgDir T =
     (\<forall>task \<in> T. snd (Encode encoder (TaskImg task)) = None
        \<and> writeFile env imgDir (fst (fileOf encoder task)) (snd (fileOf encoder task)) = None)"

fun okPhase :: "'rgba phase \<Rightarrow> bool" where
  "okPhase (Returned (Some e)) = False"
| "okPhase (Stored e) = False"
| "okPhase p = True"

text \<open>
  The states of such a batch: no failure is recorded anywhere, a worker has returned only
  after the channel was closed and emptied, and the files written together with the files
  of the tasks not written yet are the files of all tasks.
\<close>

definition noFailure ::
  "'rgba ImageEncoder \<Rightarrow> string \<Rightarrow> 'rgba WriteTask list \<Rightarrow> (string \<times> byte list) multiset
     \<Rightarrow> 'rgba batch \<Rightarrow> bool" where
  "noFailure encoder imgDir tasks W s =
     (poolClean (world s) \<and> \<not> failed s \<and> set (resultChan s) \<subseteq> {None}
      \<and> list_all okPhase (workers s)
      \<and> (taskChanClosed s \<longrightarrow> pending s = [])
      \<and> (Exited \<in> set (workers s) \<longrightarrow> taskChanClosed s \<and> taskChan s = [])
      \<and> set_mset (openTasks s) \<subseteq> set tasks
      \<and> mset (writtenFiles imgDir (trace (world s))) + image_mset (fileOf encoder) (openTasks s)
          = W + image_mset (fileOf encoder) (mset tasks))"

text \<open>An error is on the result channel, or about to be sent, only when the flag is set.\<close>

definition failureFlagged :: "'rgba batch \<Rightarrow> bool" where
  "failureFlagged s =
     (failed s \<or> (list_all (\<lambda>r. r = None) (resultChan s)
                  \<and> list_all (\<lambda>p. case p of Stored e \<Rightarrow> False | _ \<Rightarrow> True) (workers s)))"

text \<open>The first value of a list of results that is an error, none when there is none.\<close>

definition firstError :: "error option list \<Rightarrow> error option" where
  "firstError rs = (case dropWhile (\<lambda>r. r = None) rs of [] \<Rightarrow> None | r # rest \<Rightarrow> r)"

text \<open>
  The six names by which the specification lists the recognised extensions (PNG, JPEG,
  GIF, BMP, TIFF, WebP), in lower case.
\<close>

definition claimedExtensions :: "string list" where
  "claimedExtensions = [''png'', ''jpeg'', ''gif'', ''bmp'', ''tiff'', ''webp'']"

section \<open>A sample with duplicates and a sample with a failing encoder\<close>

text \<open>
  The loaded images of the sample directory, and a second environment: three files of
  three different hashes, of which the first and the third cannot be encoded as WebP (the
  encoder returns an error after one byte), and three workers. \<open>failFirst\<close> is the
  schedule in which all three workers pass the check of the flag before the worker of the
  third task fails and reports; \<open>failRest\<close> lets the other two finish their calls.
\<close>

definition sampleLoaded :: "nat LoadedImage list" where
  "sampleLoaded =
     [\<lparr>Img = 2, FileHash = ''aa''\<rparr>, \<lparr>Img = 2, FileHash = ''aa''\<rparr>, \<lparr>Img = 3, FileHash = ''cc''\<rparr>]"

definition failEnv :: "(nat, nat) env" where
  "failEnv =
     sampleEnv
       \<lparr>readFile := (\<lambda>dir name. Inr (if name = ''a.png'' then [1] else if name = ''b.png'' then [3] else [2])),
        sha256hex := (\<lambda>data. if data = [1] then ''aa'' else if data = [3] then ''bb'' else ''cc''),
        webpEncode := (\<lambda>img. if img = 2 then ([9], Some (External ''corrupt a''))
                              else if img = 3 then ([9], Some (External ''corrupt c''))
                              else ([9, of_nat img], None)),
        getenv := (\<lambda>name. ''3'')\<rparr>"

definition failTasks :: "nat WriteTask list" where
  "failTasks = [WriteTask 0 2, WriteTask 1 4, WriteTask 2 3]"

definition failFirst :: "actor list" where
  "failFirst =
     [Main, Main, Main, Main, Worker 0 0, Worker 1 0, Worker 2 0, Worker 0 0, Worker 1 0,
      Worker 2 0, Worker 2 0, Worker 2 0, Worker 2 0]"

definition failRest :: "actor list" where
  "failRest = [Worker 1 0, Worker 1 0, Worker 0 0, Worker 0 0, Worker 0 0]"

definition failLoaded :: "nat LoadedImage list" where
  "failLoaded =
     [\<lparr>Img = 2, FileHash = ''aa''\<rparr>, \<lparr>Img = 4, FileHash = ''bb''\<rparr>, \<lparr>Img = 3, FileHash = ''cc''\<rparr>]"

section \<open>First occurrences\<close>

text \<open>
  The specification of both deduplications: of a list, the elements whose key is not in
  \<open>S\<close> and was not the key of an earlier element.
\<close>

fun firstOccurrences :: "('a \<Rightarrow> 'k) \<Rightarrow> 'k set \<Rightarrow> 'a list \<Rightarrow> 'a list" where
  "firstOccurrences key S [] = []"
| "firstOccurrences key S (x # xs) =
     (if key x \<in> S then firstOccurrences key S xs
      else x # firstOccurrences key (insert (key x) S) xs)"

lemma firstOccurrences_length_le: "length (firstOccurrences key S xs) \<le> length xs"
  by (induction xs arbitrary: S) (auto simp: le_SucI)

lemma firstOccurrences_keys: "key ` set (firstOccurrences key S xs) = key ` set xs - S"
  by (induction xs arbitrary: S) auto

lemma firstOccurrences_distinct: "distinct (map key (firstOccurrences key S xs))"
proof (induction xs arbitrary: S)
  case Nil
  show ?case by simp
next
  case (Cons x xs)
  have "key x \<notin> key ` set (firstOccurrences key (insert (key x) S) xs)"
    by (simp add: firstOccurrences_keys)
  with Cons.IH show ?case by auto
qed

lemma firstOccurrences_subseq: "subseq (firstOccurrences key S xs) xs"
  by (induction xs arbitrary: S) auto

lemma firstOccurrences_first:
  "x \<in> set (firstOccurrences key S xs) \<Longrightarrow> find (\<lambda>l. key l = key x) xs = Some x"
proof (induction xs arbitrary: S)
  case Nil
  then show ?case by simp
next
  case (Cons y ys)
  show ?case
  proof (cases "key y \<in> S")
    case True
    with Cons.prems have mem: "x \<in> set (firstOccurrences key S ys)" by simp
    then have "key x \<in> key ` set (firstOccurrences key S ys)" by blast
    then have "key x \<notin> S" by (simp add: firstOccurrences_keys)
    with True have "key y \<noteq> key x" by auto
    with Cons.IH [OF mem] show ?thesis by simp
  next
    case False
    with Cons.prems consider "x = y" | "x \<in> set (firstOccurrences key (insert (key y) S) ys)"
      by auto
    then show ?thesis
    proof cases
      case 1
      then show ?thesis by simp
    next
      case 2
      then have "key x \<in> key ` set (firstOccurrences key (insert (key y) S) ys)" by blast
      then have "key y \<noteq> key x" by (auto simp: firstOccurrences_keys)
      with Cons.IH [OF 2] show ?thesis by simp
    qed
  qed
qed

section \<open>Properties of the deduplication\<close>

lemma dedupLoop_firstOccurrences:
  "dedupLoop xs seen d acc =
     (d + (length xs - length (firstOccurrences FileHash {h. seen h} xs)),
      acc @ firstOccurrences FileHash {h. seen h} xs)"
proof (induction xs arbitrary: seen d acc)
  case Nil
  show ?case by simp
next
  case (Cons li rest)
  have ins: "{h. (seen(FileHash li := True)) h} = insert (FileHash li) {h. seen h}"
    by auto
  show ?case
  proof (cases "seen (FileHash li)")
    case True
    then show ?thesis
      using Cons.IH [of seen "d + 1" acc]
        firstOccurrences_length_le [of FileHash "{h. seen h}" rest]
      by simp
  next
    case False
    have "dedupLoop rest (seen(FileHash li := True)) d (acc @ [li]) =
            (d + (length rest
                  - length (firstOccurrences FileHash (insert (FileHash li) {h. seen h}) rest)),
             (acc @ [li]) @ firstOccurrences FileHash (insert (FileHash li) {h. seen h}) rest)"
      using Cons.IH [of "seen(FileHash li := True)" d "acc @ [li]"] unfolding ins .
    with False show ?thesis by simp
  qed
qed

lemma deduplicate_firstOccurrences:
  "deduplicate xs =
     (length xs - length (firstOccurrences FileHash {} xs), firstOccurrences FileHash {} xs)"
  by (simp add: deduplicate_def dedupLoop_firstOccurrences)

text \<open>
  C1. The loop over the loaded images keeps exactly one image per distinct hash: the
  hashes of the unique images are pairwise distinct, there are as many unique images as
  there are distinct hashes among the loaded images, every loaded image is either kept or
  counted as a duplicate, the unique images are a subsequence of the loaded images (their
  order is the order of enumeration), and each unique image is the first loaded image
  that has its hash.
\<close>

theorem deduplicate_unique_first_occurrence:
  "distinct (map FileHash (snd (deduplicate loaded)))
   \<and> length (snd (deduplicate loaded)) = card (FileHash ` set loaded)
   \<and> fst (deduplicate loaded) + length (snd (deduplicate loaded)) = length loaded
   \<and> subseq (snd (deduplicate loaded)) loaded
   \<and> (\<forall>x \<in> set (snd (deduplicate loaded)).
         find (\<lambda>l. FileHash l = FileHash x) loaded = Some x)"
proof -
  let ?u = "firstOccurrences FileHash {} loaded"
  have d: "distinct (map FileHash ?u)" by (rule firstOccurrences_distinct)
  have "card (FileHash ` set loaded) = card (set (map FileHash ?u))"
    using firstOccurrences_keys [of FileHash "{}" loaded] by simp
  also have "\<dots> = length (map FileHash ?u)" using d by (rule distinct_card)
  finally have c: "length ?u = card (FileHash ` set loaded)" by simp
  have l: "length loaded - length ?u + length ?u = length loaded"
    using firstOccurrences_length_le [of FileHash "{}" loaded] by simp
  show ?thesis
    using d c l firstOccurrences_subseq [of FileHash "{}" loaded]
      firstOccurrences_first [of _ FileHash "{}" loaded]
    by (simp add: deduplicate_firstOccurrences)
qed

theorem deduplicate_unique_first_occurrence_witness:
  "deduplicate [\<lparr>Img = (1::nat), FileHash = ''aa''\<rparr>, \<lparr>Img = 2, FileHash = ''aa''\<rparr>,
                \<lparr>Img = 3, FileHash = ''cc''\<rparr>]
     = (1, [\<lparr>Img = 1, FileHash = ''aa''\<rparr>, \<lparr>Img = 3, FileHash = ''cc''\<rparr>])
   \<and> find (\<lambda>l. FileHash l = ''aa'')
        [\<lparr>Img = (1::nat), FileHash = ''aa''\<rparr>, \<lparr>Img = 2, FileHash = ''aa''\<rparr>,
         \<lparr>Img = 3, FileHash = ''cc''\<rparr>] = Some \<lparr>Img = 1, FileHash = ''aa''\<rparr>"
  using deduplicate_unique_first_occurrence
    [of "[\<lparr>Img = (1::nat), FileHash = ''aa''\<rparr>, \<lparr>Img = 2, FileHash = ''aa''\<rparr>,
          \<lparr>Img = 3, FileHash = ''cc''\<rparr>]"]
  by (simp add: deduplicate_def)

section \<open>The result of os.Mkdir is used by the entry point only\<close>

lemma hashBytes_mkdir [simp]: "hashBytes (env\<lparr>mkdir := m\<rparr>) = hashBytes env"
  by (simp add: fun_eq_iff hashBytes_def)

lemma toRGBA_mkdir [simp]: "toRGBA (env\<lparr>mkdir := m\<rparr>) = toRGBA env"
  by (simp add: fun_eq_iff toRGBA_def split: option.splits)

lemma ToLower_mkdir [simp]: "ToLower (env\<lparr>mkdir := m\<rparr>) = ToLower env"
  by (simp add: fun_eq_iff ToLower_def)

lemma isImageFile_mkdir [simp]: "isImageFile (env\<lparr>mkdir := m\<rparr>) = isImageFile env"
  by (simp add: fun_eq_iff isImageFile_def)

lemma GetEncoder_mkdir [simp]: "GetEncoder (env\<lparr>mkdir := m\<rparr>) = GetEncoder env"
  by (simp add: fun_eq_iff GetEncoder_def encoderRegistry_def PNGEncoder_def WebPEncoder_def)

lemma writeImageFile_mkdir [simp]: "writeImageFile (env\<lparr>mkdir := m\<rparr>) = writeImageFile env"
  by (simp add: fun_eq_iff writeImageFile_def Let_def split: option.splits prod.splits)

lemma getWorkerCount_mkdir [simp]: "getWorkerCount (env\<lparr>mkdir := m\<rparr>) = getWorkerCount env"
  by (simp add: getWorkerCount_def Let_def split: sum.splits)

lemma workerStep_mkdir [simp]: "workerStep (env\<lparr>mkdir := m\<rparr>) = workerStep env"
  by (simp add: fun_eq_iff workerStep_def cong: phase.case_cong)

lemma step_mkdir [simp]: "step (env\<lparr>mkdir := m\<rparr>) encoder imgDir a s = step env encoder imgDir a s"
  by (cases a) simp_all

lemma exec_mkdir [simp]: "exec (env\<lparr>mkdir := m\<rparr>) = exec env"
  by (simp add: fun_eq_iff exec_def)

lemma drain_mkdir [simp]:
  "drain (env\<lparr>mkdir := m\<rparr>) encoder imgDir s = drain env encoder imgDir s"
proof (induction env encoder imgDir s rule: drain.induct)
  case (1 env encoder imgDir s)
  show ?case
  proof (cases "nextActor s")
    case None
    then show ?thesis
      by (subst drain.simps, subst (2) drain.simps) simp
  next
    case (Some a)
    with "1.IH" [OF Some] show ?thesis
      by (subst drain.simps, subst (2) drain.simps) simp
  qed
qed

lemma processImagesConcurrently_mkdir [simp]:
  "processImagesConcurrently (env\<lparr>mkdir := m\<rparr>) = processImagesConcurrently env"
  by (simp add: fun_eq_iff processImagesConcurrently_def runWorkers_def)

lemma loadImages_mkdir [simp]:
  "loadImages (env\<lparr>mkdir := m\<rparr>) tempDir files acc w = loadImages env tempDir files acc w"
  by (induction files arbitrary: acc w) (simp_all split: sum.splits)

lemma extractImagesConcurrent_mkdir [simp]:
  "extractImagesConcurrent (env\<lparr>mkdir := m\<rparr>) = extractImagesConcurrent env"
  by (simp add: fun_eq_iff extractImagesConcurrent_def Let_def split: option.splits prod.splits sum.splits)

lemma sequentialLoop_mkdir [simp]:
  "sequentialLoop (env\<lparr>mkdir := m\<rparr>) files tempDir imgDir seen d u w
     = sequentialLoop env files tempDir imgDir seen d u w"
  by (induction files arbitrary: seen d u w) (simp_all add: Let_def split: sum.splits option.splits)

lemma extractImagesOriginal_mkdir [simp]:
  "extractImagesOriginal (env\<lparr>mkdir := m\<rparr>) = extractImagesOriginal env"
  by (simp add: fun_eq_iff extractImagesOriginal_def processExtractedFilesSequential_def Let_def split: option.splits prod.splits sum.splits)

lemma ExtractImagesFromFile_after_mkdir:
  "mkdir env imgDir = None \<or> (\<exists>e. mkdir env imgDir = Some e \<and> IsExist e) \<Longrightarrow>
   ExtractImagesFromFile env sched filename imgDir format w =
     (if format = ''original'' \<or> format = [] then
        extractImagesOriginal env filename imgDir (emit (EvMkdir imgDir) w)
      else
        (case GetEncoder env format of
           Inl err \<Rightarrow> (Some err, emit (EvMkdir imgDir) w)
         | Inr encoder \<Rightarrow>
             extractImagesConcurrent env sched filename imgDir encoder (emit (EvMkdir imgDir) w)))"
  by (auto simp: ExtractImagesFromFile_def Let_def)

text \<open>
  C10. When \<^verbatim>\<open>os.Mkdir\<close> of the output directory fails with an error of which
  \<^verbatim>\<open>os.IsExist\<close> holds, \<^verbatim>\<open>ExtractImagesFromFile\<close> does exactly what it does when the
  directory was created; when it fails with any other error, that error is returned and
  nothing but the \<^verbatim>\<open>os.Mkdir\<close> was done.
\<close>

theorem mkdir_exists_tolerated:
  "(IsExist e \<and> mkdir env imgDir = Some e \<longrightarrow>
      ExtractImagesFromFile env sched filename imgDir format w
        = ExtractImagesFromFile (env\<lparr>mkdir := \<lambda>dir. None\<rparr>) sched filename imgDir format w)
   \<and> (\<not> IsExist e \<and> mkdir env imgDir = Some e \<longrightarrow>
      ExtractImagesFromFile env sched filename imgDir format w = (Some e, emit (EvMkdir imgDir) w))"
proof (intro conjI impI)
  assume a: "IsExist e \<and> mkdir env imgDir = Some e"
  then have 1: "mkdir env imgDir = None \<or> (\<exists>e. mkdir env imgDir = Some e \<and> IsExist e)"
    by blast
  have 2: "mkdir (env\<lparr>mkdir := \<lambda>dir. None\<rparr>) imgDir = None
           \<or> (\<exists>e. mkdir (env\<lparr>mkdir := \<lambda>dir. None\<rparr>) imgDir = Some e \<and> IsExist e)"
    by simp
  show "ExtractImagesFromFile env sched filename imgDir format w
        = ExtractImagesFromFile (env\<lparr>mkdir := \<lambda>dir. None\<rparr>) sched filename imgDir format w"
    unfolding ExtractImagesFromFile_after_mkdir [OF 1] ExtractImagesFromFile_after_mkdir [OF 2]
    by (simp cong: sum.case_cong)
next
  assume "\<not> IsExist e \<and> mkdir env imgDir = Some e"
  then show "ExtractImagesFromFile env sched filename imgDir format w = (Some e, emit (EvMkdir imgDir) w)"
    by (simp add: ExtractImagesFromFile_def Let_def)
qed

theorem mkdir_exists_tolerated_witness:
  "IsExist (Errno EEXIST)
   \<and> mkdir (sampleEnv\<lparr>mkdir := \<lambda>dir. Some (Errno EEXIST)\<rparr>) ''out'' = Some (Errno EEXIST)
   \<and> ExtractImagesFromFile (sampleEnv\<lparr>mkdir := \<lambda>dir. Some (Errno EEXIST)\<rparr>) [] ''in.pdf'' ''out''
         ''original'' world0
       = ExtractImagesFromFile sampleEnv [] ''in.pdf'' ''out'' ''original'' world0
   \<and> fst (ExtractImagesFromFile sampleEnv [] ''in.pdf'' ''out'' ''original'' world0) = None
   \<and> \<not> IsExist (Errno EACCES)
   \<and> ExtractImagesFromFile (sampleEnv\<lparr>mkdir := \<lambda>dir. Some (Errno EACCES)\<rparr>) [] ''in.pdf'' ''out''
         ''original'' world0
       = (Some (Errno EACCES), emit (EvMkdir ''out'') world0)"
proof -
  have same: "sampleEnv\<lparr>mkdir := \<lambda>dir. Some (Errno EEXIST)\<rparr>\<lparr>mkdir := \<lambda>dir. None\<rparr> = sampleEnv"
    by (simp add: sampleEnv_def)
  have ok: "fst (ExtractImagesFromFile sampleEnv [] ''in.pdf'' ''out'' ''original'' world0) = None"
    by code_simp
  show ?thesis
    using mkdir_exists_tolerated
        [of "Errno EEXIST" "sampleEnv\<lparr>mkdir := \<lambda>dir. Some (Errno EEXIST)\<rparr>" "''out''" "[]"
            "''in.pdf''" "''original''" world0]
      mkdir_exists_tolerated
        [of "Errno EACCES" "sampleEnv\<lparr>mkdir := \<lambda>dir. Some (Errno EACCES)\<rparr>" "''out''" "[]"
            "''in.pdf''" "''original''" world0]
      ok
    by (simp add: same)
qed

section \<open>Unknown formats\<close>

lemma GetEncoder_unregistered:
  "ToLower env format \<noteq> ''png'' \<Longrightarrow> ToLower env format \<noteq> ''webp'' \<Longrightarrow>
     GetEncoder env format = Inl (Errorf (''unsupported format: '' @ ToLower env format))"
  by (simp add: GetEncoder_def encoderRegistry_def Let_def)

text \<open>
  C5, as the code has it. For every format other than \<^verbatim>\<open>original\<close> and the empty string
  whose lowered name is not in the registry, and when the output directory was created or
  exists already, \<^verbatim>\<open>ExtractImagesFromFile\<close> returns the unsupported-format error and has
  done nothing but the \<^verbatim>\<open>os.Mkdir\<close> of the output directory: no temporary directory,
  no extraction, no file read or written, nothing printed.
\<close>

theorem unsupported_format_before_any_work:
  assumes "format \<noteq> ''original''" and "format \<noteq> []"
    and "ToLower env format \<noteq> ''png''" and "ToLower env format \<noteq> ''webp''"
    and "mkdir env imgDir = None \<or> (\<exists>e. mkdir env imgDir = Some e \<and> IsExist e)"
  shows "ExtractImagesFromFile env sched filename imgDir format w
           = (Some (Errorf (''unsupported format: '' @ ToLower env format)),
              w\<lparr>trace := trace w @ [EvMkdir imgDir]\<rparr>)"
  using assms
  by (simp add: ExtractImagesFromFile_after_mkdir GetEncoder_unregistered emit_def)

theorem unsupported_format_before_any_work_witness:
  "ExtractImagesFromFile sampleEnv [] ''in.pdf'' ''out'' ''gif'' world0
     = (Some (Errorf ''unsupported format: gif''), \<lparr>bufferPool = [], trace = [EvMkdir ''out'']\<rparr>)"
proof -
  have l: "ToLower sampleEnv ''gif'' = ''gif''" by code_simp
  have m: "mkdir sampleEnv ''out'' = None" by (simp add: sampleEnv_def)
  show ?thesis
    using unsupported_format_before_any_work [of "''gif''" sampleEnv "''out''" "[]" "''in.pdf''" world0]
    by (simp add: l m world0_def)
qed

text \<open>
  C5 as stated fails twice. The format \<^verbatim>\<open>gif\<close> is not registered, yet when \<^verbatim>\<open>os.Mkdir\<close>
  fails with a permission error the run returns that error, not the unsupported-format
  error. The format \<^verbatim>\<open>original\<close> is not registered either, and the run succeeds and
  copies the files.
\<close>

theorem unregistered_format_counterexample:
  "isl (GetEncoder sampleEnv ''gif'')
   \<and> fst (ExtractImagesFromFile (sampleEnv\<lparr>mkdir := \<lambda>dir. Some (Errno EACCES)\<rparr>) [] ''in.pdf''
            ''out'' ''gif'' world0) = Some (Errno EACCES)
   \<and> isl (GetEncoder sampleEnv ''original'')
   \<and> fst (ExtractImagesFromFile sampleEnv [] ''in.pdf'' ''out'' ''original'' world0) = None
   \<and> writtenFiles ''out''
        (trace (snd (ExtractImagesFromFile sampleEnv [] ''in.pdf'' ''out'' ''original'' world0)))
       = [(''image_0000.png'', [1]), (''image_0001.jpg'', [2])]"
  by code_simp

section \<open>Recognised file names\<close>

lemma extScan_no_dot: "CHR ''.'' \<notin> set cs \<Longrightarrow> extScan cs acc = []"
  by (induction cs arbitrary: acc) auto

lemma Ext_no_dot: "CHR ''.'' \<notin> set name \<Longrightarrow> Ext name = []"
  by (simp add: Ext_def extScan_no_dot)

lemma extScan_dot:
  "CHR ''.'' \<notin> set r \<Longrightarrow> CHR ''/'' \<notin> set r \<Longrightarrow>
     extScan (r @ CHR ''.'' # rest) acc = CHR ''.'' # rev r @ acc"
  by (induction r arbitrary: acc) auto

lemma Ext_dot:
  "CHR ''.'' \<notin> set e \<Longrightarrow> CHR ''/'' \<notin> set e \<Longrightarrow> Ext (base @ CHR ''.'' # e) = CHR ''.'' # e"
  using extScan_dot [of "rev e" "rev base" "[]"] by (simp add: Ext_def)

lemma ToLower_ASCII: "isASCII s \<Longrightarrow> ToLower env s = map toLowerByte s"
  by (simp add: ToLower_def)

lemma ToLower_Nil: "ToLower env [] = []"
  by (simp add: ToLower_def isASCII_def)

lemma ToLower_ASCII_dot:
  "isASCII e \<Longrightarrow> ToLower env (CHR ''.'' # e) = CHR ''.'' # map toLowerByte e"
  by (simp add: ToLower_def isASCII_def toLowerByte_def)

lemma isImageFile_dot:
  assumes "CHR ''.'' \<notin> set e" and "CHR ''/'' \<notin> set e"
  shows "isImageFile env (base @ CHR ''.'' # e) \<longleftrightarrow>
           ToLower env (CHR ''.'' # e)
             \<in> {''.png'', ''.jpg'', ''.jpeg'', ''.gif'', ''.bmp'', ''.tiff'', ''.webp''}"
  using assms by (simp add: isImageFile_def Ext_dot Let_def)

lemma isImageFile_dot_ASCII:
  assumes "CHR ''.'' \<notin> set e" and "CHR ''/'' \<notin> set e" and "isASCII e"
  shows "isImageFile env (base @ CHR ''.'' # e) \<longleftrightarrow>
           map toLowerByte e \<in> {''png'', ''jpg'', ''jpeg'', ''gif'', ''bmp'', ''tiff'', ''webp''}"
  using assms by (simp add: isImageFile_dot ToLower_ASCII_dot)

lemma isImageFile_no_dot: "CHR ''.'' \<notin> set name \<Longrightarrow> \<not> isImageFile env name"
  by (simp add: isImageFile_def Ext_no_dot ToLower_Nil)

text \<open>
  A name whose extension is not ASCII goes through the tables of Unicode: the capital I
  with a dot above (U+0130, the bytes C4 B0) is lowered to \<^verbatim>\<open>i\<close>, so a file whose extension
  is \<^verbatim>\<open>.g\<close>, that letter and \<^verbatim>\<open>f\<close> is recognised.
\<close>

lemma isImageFile_unicode:
  assumes "unicodeToLower env [CHR ''.'', CHR ''g'', CHR 0xC4, CHR 0xB0, CHR ''f''] = ''.gif''"
  shows "isImageFile env [CHR ''a'', CHR ''.'', CHR ''g'', CHR 0xC4, CHR 0xB0, CHR ''f'']"
proof -
  have "Ext [CHR ''a'', CHR ''.'', CHR ''g'', CHR 0xC4, CHR 0xB0, CHR ''f'']
          = [CHR ''.'', CHR ''g'', CHR 0xC4, CHR 0xB0, CHR ''f'']"
    by code_simp
  moreover have "\<not> isASCII [CHR ''.'', CHR ''g'', CHR 0xC4, CHR 0xB0, CHR ''f'']"
    by code_simp
  ultimately show ?thesis
    using assms by (simp add: isImageFile_def ToLower_def Let_def)
qed

lemma loadImages_unrecognized:
  "\<forall>f \<in> set files. \<not> isImageFile env (Name f) \<Longrightarrow>
     loadImages env tempDir files acc w = (Inr acc, w)"
  by (induction files) simp_all

lemma sequentialLoop_unrecognized:
  "\<forall>f \<in> set files. \<not> isImageFile env (Name f) \<Longrightarrow>
     sequentialLoop env files tempDir imgDir seen d u w = (Inr d, w)"
  by (induction files) simp_all

lemma GetEncoder_registered:
  "ToLower env format = ''png'' \<or> ToLower env format = ''webp'' \<Longrightarrow> \<exists>encoder. GetEncoder env format = Inr encoder"
  by (auto simp: GetEncoder_def encoderRegistry_def Let_def)

lemma unrecognized_only:
  assumes mk: "mkdir env imgDir = None \<or> (\<exists>e. mkdir env imgDir = Some e \<and> IsExist e)"
    and tmp: "mkdirTemp env = Inr tempDir"
    and ex: "extractImagesFile env filename tempDir = None"
    and rd: "readDir env tempDir = Inr files"
    and un: "\<forall>f \<in> set files. \<not> isImageFile env (Name f)"
    and fmt: "format = ''original'' \<or> format = [] \<or> ToLower env format = ''png'' \<or> ToLower env format = ''webp''"
  shows "ExtractImagesFromFile env sched filename imgDir format w
           = (None, w\<lparr>trace := trace w @ [EvMkdir imgDir, EvMkdirTemp,
                 EvExtractImagesFile filename tempDir, EvReadDir tempDir, EvRemoveAll tempDir]\<rparr>)"
proof (cases "format = ''original'' \<or> format = []")
  case True
  then show ?thesis
    using tmp ex rd un
    by (simp add: ExtractImagesFromFile_after_mkdir [OF mk] extractImagesOriginal_def
        processExtractedFilesSequential_def sequentialLoop_unrecognized emit_def)
next
  case False
  with fmt obtain encoder where "GetEncoder env format = Inr encoder"
    using GetEncoder_registered [of env format] by blast
  with False show ?thesis
    using tmp ex rd un
    by (simp add: ExtractImagesFromFile_after_mkdir [OF mk] extractImagesConcurrent_def
        loadImages_unrecognized emit_def)
qed

text \<open>
  C7, as the code has it. A name that ends in a dot and an extension is recognised exactly
  when the extension with its dot, lowered by \<^verbatim>\<open>strings.ToLower\<close>, is one of \<^verbatim>\<open>.png\<close>,
  \<^verbatim>\<open>.jpg\<close>, \<^verbatim>\<open>.jpeg\<close>, \<^verbatim>\<open>.gif\<close>, \<^verbatim>\<open>.bmp\<close>, \<^verbatim>\<open>.tiff\<close>, \<^verbatim>\<open>.webp\<close>; for an ASCII extension
  that is: exactly when the extension with A to Z mapped to a to z is one of png, jpg,
  jpeg, gif, bmp, tiff, webp. A name with no dot is not recognised. Both loops pass over a
  file that is not recognised without reading it and without an error. When the directory
  holds no recognised file (one file \<^verbatim>\<open>notes.xyz\<close>, say), the run returns no error and
  writes no file: it makes the two directories, extracts, lists the temporary directory
  and removes it.
\<close>

theorem unrecognized_extension_skipped:
  "(CHR ''.'' \<notin> set e \<and> CHR ''/'' \<notin> set e \<longrightarrow>
      (isImageFile env (base @ CHR ''.'' # e) \<longleftrightarrow>
         ToLower env (CHR ''.'' # e)
           \<in> {''.png'', ''.jpg'', ''.jpeg'', ''.gif'', ''.bmp'', ''.tiff'', ''.webp''}))
   \<and> (CHR ''.'' \<notin> set e \<and> CHR ''/'' \<notin> set e \<and> isASCII e \<longrightarrow>
      (isImageFile env (base @ CHR ''.'' # e) \<longleftrightarrow>
         map toLowerByte e \<in> {''png'', ''jpg'', ''jpeg'', ''gif'', ''bmp'', ''tiff'', ''webp''}))
   \<and> (CHR ''.'' \<notin> set name \<longrightarrow> \<not> isImageFile env name)
   \<and> (\<not> isImageFile env (Name f) \<longrightarrow>
        loadImages env tempDir (f # rest) acc w = loadImages env tempDir rest acc w
        \<and> sequentialLoop env (f # rest) tempDir imgDir seen d u w
            = sequentialLoop env rest tempDir imgDir seen d u w)
   \<and> ((mkdir env imgDir = None \<or> (\<exists>err. mkdir env imgDir = Some err \<and> IsExist err))
        \<and> mkdirTemp env = Inr tempDir \<and> extractImagesFile env filename tempDir = None
        \<and> readDir env tempDir = Inr files \<and> (\<forall>f \<in> set files. \<not> isImageFile env (Name f))
        \<and> (format = ''original'' \<or> format = [] \<or> ToLower env format = ''png''
            \<or> ToLower env format = ''webp'')
      \<longrightarrow> ExtractImagesFromFile env sched filename imgDir format w
           = (None, w\<lparr>trace := trace w @ [EvMkdir imgDir, EvMkdirTemp,
                 EvExtractImagesFile filename tempDir, EvReadDir tempDir, EvRemoveAll tempDir]\<rparr>))"
proof (intro conjI impI)
  assume "CHR ''.'' \<notin> set e \<and> CHR ''/'' \<notin> set e"
  then show "isImageFile env (base @ CHR ''.'' # e) \<longleftrightarrow>
         ToLower env (CHR ''.'' # e)
           \<in> {''.png'', ''.jpg'', ''.jpeg'', ''.gif'', ''.bmp'', ''.tiff'', ''.webp''}"
    by (simp add: isImageFile_dot)
next
  assume "CHR ''.'' \<notin> set e \<and> CHR ''/'' \<notin> set e \<and> isASCII e"
  then show "isImageFile env (base @ CHR ''.'' # e) \<longleftrightarrow>
         map toLowerByte e \<in> {''png'', ''jpg'', ''jpeg'', ''gif'', ''bmp'', ''tiff'', ''webp''}"
    by (simp add: isImageFile_dot_ASCII)
next
  assume "CHR ''.'' \<notin> set name"
  then show "\<not> isImageFile env name" by (rule isImageFile_no_dot)
next
  assume "\<not> isImageFile env (Name f)"
  then show "loadImages env tempDir (f # rest) acc w = loadImages env tempDir rest acc w"
    by simp
next
  assume "\<not> isImageFile env (Name f)"
  then show "sequentialLoop env (f # rest) tempDir imgDir seen d u w
            = sequentialLoop env rest tempDir imgDir seen d u w"
    by simp
next
  assume a: "(mkdir env imgDir = None \<or> (\<exists>err. mkdir env imgDir = Some err \<and> IsExist err))
        \<and> mkdirTemp env = Inr tempDir \<and> extractImagesFile env filename tempDir = None
        \<and> readDir env tempDir = Inr files \<and> (\<forall>f \<in> set files. \<not> isImageFile env (Name f))
        \<and> (format = ''original'' \<or> format = [] \<or> ToLower env format = ''png''
            \<or> ToLower env format = ''webp'')"
  then show "ExtractImagesFromFile env sched filename imgDir format w
           = (None, w\<lparr>trace := trace w @ [EvMkdir imgDir, EvMkdirTemp,
                 EvExtractImagesFile filename tempDir, EvReadDir tempDir, EvRemoveAll tempDir]\<rparr>)"
    using unrecognized_only [of env imgDir tempDir filename files format sched w] by blast
qed

theorem unrecognized_extension_skipped_witness:
  "isImageFile sampleEnv ''photo.JPeG'' \<and> isImageFile sampleEnv ''scan.TIFF''
   \<and> \<not> isImageFile sampleEnv ''notes.xyz'' \<and> \<not> isImageFile sampleEnv ''README''
   \<and> loadImages sampleEnv ''tmp'' [\<lparr>Name = ''notes.xyz'', IsDir = False\<rparr>] [] world0 = (Inr [], world0)
   \<and> sequentialLoop sampleEnv [\<lparr>Name = ''notes.xyz'', IsDir = False\<rparr>] ''tmp'' ''out''
         (\<lambda>h. False) 0 0 world0 = (Inr 0, world0)
   \<and> ExtractImagesFromFile
        (sampleEnv\<lparr>readDir := \<lambda>dir. Inr [\<lparr>Name = ''notes.xyz'', IsDir = False\<rparr>]\<rparr>)
        [] ''in.pdf'' ''out'' ''png'' world0
       = (None, \<lparr>bufferPool = [], trace = [EvMkdir ''out'', EvMkdirTemp,
                 EvExtractImagesFile ''in.pdf'' ''tmp'', EvReadDir ''tmp'', EvRemoveAll ''tmp'']\<rparr>)"
proof -
  let ?env = "sampleEnv\<lparr>readDir := \<lambda>dir. Inr [\<lparr>Name = ''notes.xyz'', IsDir = False\<rparr>]\<rparr>"
  have x: "\<not> isImageFile ?env ''notes.xyz''" by code_simp
  have x': "\<not> isImageFile sampleEnv ''notes.xyz''" by code_simp
  have p: "ToLower ?env ''png'' = ''png''" by code_simp
  have j: "map toLowerByte ''JPeG'' = ''jpeg''" by code_simp
  have a: "isASCII ''JPeG''" by code_simp
  have h: "CHR ''.'' \<notin> set ''JPeG'' \<and> CHR ''/'' \<notin> set ''JPeG'' \<and> isASCII ''JPeG''"
    using a by simp
  have "isImageFile sampleEnv (''photo'' @ CHR ''.'' # ''JPeG'') \<longleftrightarrow>
          map toLowerByte ''JPeG'' \<in> {''png'', ''jpg'', ''jpeg'', ''gif'', ''bmp'', ''tiff'', ''webp''}"
    by (rule unrecognized_extension_skipped
          [where e = "''JPeG''" and base = "''photo''" and env = sampleEnv,
           THEN conjunct2, THEN conjunct1, THEN mp, OF h])
  then have A: "isImageFile sampleEnv ''photo.JPeG''"
    unfolding j by simp
  have t: "ToLower sampleEnv (CHR ''.'' # ''TIFF'') = ''.tiff''" by code_simp
  have h': "CHR ''.'' \<notin> set ''TIFF'' \<and> CHR ''/'' \<notin> set ''TIFF''" by simp
  have "isImageFile sampleEnv (''scan'' @ CHR ''.'' # ''TIFF'') \<longleftrightarrow>
          ToLower sampleEnv (CHR ''.'' # ''TIFF'')
            \<in> {''.png'', ''.jpg'', ''.jpeg'', ''.gif'', ''.bmp'', ''.tiff'', ''.webp''}"
    by (rule unrecognized_extension_skipped
          [where e = "''TIFF''" and base = "''scan''" and env = sampleEnv,
           THEN conjunct1, THEN mp, OF h'])
  then have A': "isImageFile sampleEnv ''scan.TIFF''"
    unfolding t by simp
  have B: "\<not> isImageFile sampleEnv ''README''"
    using unrecognized_extension_skipped [where name = "''README''" and env = sampleEnv]
    by simp
  have x'': "\<not> isImageFile sampleEnv (Name \<lparr>Name = ''notes.xyz'', IsDir = False\<rparr>)"
    using x' by simp
  have "loadImages sampleEnv ''tmp'' [\<lparr>Name = ''notes.xyz'', IsDir = False\<rparr>] [] world0
          = loadImages sampleEnv ''tmp'' [] [] world0
        \<and> sequentialLoop sampleEnv [\<lparr>Name = ''notes.xyz'', IsDir = False\<rparr>] ''tmp'' ''out''
            (\<lambda>h. False) 0 0 world0
          = sequentialLoop sampleEnv [] ''tmp'' ''out'' (\<lambda>h. False) 0 0 world0"
    by (rule unrecognized_extension_skipped
          [where env = sampleEnv and f = "\<lparr>Name = ''notes.xyz'', IsDir = False\<rparr>" and rest = "[]"
             and tempDir = "''tmp''" and imgDir = "''out''" and acc = "[]" and w = world0
             and seen = "\<lambda>h. False" and d = 0 and u = 0,
           THEN conjunct2, THEN conjunct2, THEN conjunct2, THEN conjunct1, THEN mp, OF x''])
  then have D: "loadImages sampleEnv ''tmp'' [\<lparr>Name = ''notes.xyz'', IsDir = False\<rparr>] [] world0
          = (Inr [], world0)"
    and E: "sequentialLoop sampleEnv [\<lparr>Name = ''notes.xyz'', IsDir = False\<rparr>] ''tmp'' ''out''
            (\<lambda>h. False) 0 0 world0 = (Inr 0, world0)"
    by simp_all
  have fields: "mkdir ?env ''out'' = None" "mkdirTemp ?env = Inr ''tmp''"
    "extractImagesFile ?env ''in.pdf'' ''tmp'' = None"
    "readDir ?env ''tmp'' = Inr [\<lparr>Name = ''notes.xyz'', IsDir = False\<rparr>]"
    by (simp_all add: sampleEnv_def)
  have hyp: "(mkdir ?env ''out'' = None \<or> (\<exists>err. mkdir ?env ''out'' = Some err \<and> IsExist err))
        \<and> mkdirTemp ?env = Inr ''tmp'' \<and> extractImagesFile ?env ''in.pdf'' ''tmp'' = None
        \<and> readDir ?env ''tmp'' = Inr [\<lparr>Name = ''notes.xyz'', IsDir = False\<rparr>]
        \<and> (\<forall>f \<in> set [\<lparr>Name = ''notes.xyz'', IsDir = False\<rparr>]. \<not> isImageFile ?env (Name f))
        \<and> (''png'' = ''original'' \<or> ''png'' = [] \<or> ToLower ?env ''png'' = ''png''
            \<or> ToLower ?env ''png'' = ''webp'')"
    using fields x p by simp
  have C: "ExtractImagesFromFile ?env [] ''in.pdf'' ''out'' ''png'' world0
       = (None, world0\<lparr>trace := trace world0 @ [EvMkdir ''out'', EvMkdirTemp,
                 EvExtractImagesFile ''in.pdf'' ''tmp'', EvReadDir ''tmp'', EvRemoveAll ''tmp'']\<rparr>)"
    by (rule unrecognized_extension_skipped
          [where env = ?env and tempDir = "''tmp''" and imgDir = "''out''" and filename = "''in.pdf''"
             and files = "[\<lparr>Name = ''notes.xyz'', IsDir = False\<rparr>]" and format = "''png''"
             and sched = "[]" and w = world0,
           THEN conjunct2, THEN conjunct2, THEN conjunct2, THEN conjunct2, THEN mp, OF hyp])
  from A A' x' B C D E show ?thesis by (simp add: world0_def)
qed

text \<open>
  C7 as stated fails. The claim lists six extensions. The file \<^verbatim>\<open>c.jpg\<close> is recognised
  although \<^verbatim>\<open>jpg\<close> is none of the six; and if the six are read as formats, \<^verbatim>\<open>scan.tif\<close>,
  which carries the other usual extension of a TIFF file, is not recognised.
\<close>

theorem recognised_extensions_counterexample:
  "Ext ''c.jpg'' = ''.jpg'' \<and> isImageFile sampleEnv ''c.jpg''
   \<and> ToLower sampleEnv ''jpg'' \<notin> set claimedExtensions
   \<and> Ext ''scan.tif'' = ''.tif'' \<and> \<not> isImageFile sampleEnv ''scan.tif''"
  by code_simp

section \<open>The sequential loop\<close>

lemma writtenFiles_append:
  "writtenFiles dir (xs @ ys) = writtenFiles dir xs @ writtenFiles dir ys"
  by (induction dir xs rule: writtenFiles.induct) simp_all

lemma readFiles_append: "readFiles (xs @ ys) = readFiles xs @ readFiles ys"
  by (induction xs rule: readFiles.induct) simp_all

lemma printed_append: "printed (xs @ ys) = printed xs @ printed ys"
  by (induction xs rule: printed.induct) simp_all

lemma isImageFile_ext_nonempty: "isImageFile env name \<Longrightarrow> ToLower env (Ext name) \<noteq> []"
  by (auto simp: isImageFile_def Let_def)

text \<open>What the loop yields when every read and every write succeeds.\<close>

lemma sequentialLoop_success:
  assumes "\<forall>f \<in> set (candidateFiles env files). \<exists>data. readFile env tempDir (Name f) = Inr data"
    and "\<forall>name data. writeFile env imgDir name data = None"
  shows "\<exists>w'. sequentialLoop env files tempDir imgDir seen d u w
            = (Inr (d + (length (candidateFiles env files)
                    - length (firstOccurrences (\<lambda>f. hashBytes env (contentOf env tempDir f))
                        {h. seen h} (candidateFiles env files)))), w')
          \<and> bufferPool w' = bufferPool w
          \<and> readFiles (trace w')
              = readFiles (trace w) @ map (\<lambda>f. (tempDir, Name f)) (candidateFiles env files)
          \<and> writtenFiles imgDir (trace w')
              = writtenFiles imgDir (trace w)
                @ map (\<lambda>(k, f). (imageName k (ToLower env (Ext (Name f))), contentOf env tempDir f))
                    (enumerate u (firstOccurrences (\<lambda>f. hashBytes env (contentOf env tempDir f))
                        {h. seen h} (candidateFiles env files)))
          \<and> printed (trace w') = printed (trace w)"
  using assms(1)
proof (induction files arbitrary: seen d u w)
  case Nil
  show ?case by (simp add: candidateFiles_def)
next
  case (Cons f files)
  let ?key = "\<lambda>f. hashBytes env (contentOf env tempDir f)"
  show ?case
  proof (cases "IsDir f \<or> \<not> isImageFile env (Name f)")
    case True
    then have c: "candidateFiles env (f # files) = candidateFiles env files"
      by (auto simp: candidateFiles_def)
    from Cons.prems c have "\<forall>f \<in> set (candidateFiles env files). \<exists>data. readFile env tempDir (Name f) = Inr data"
      by simp
    from Cons.IH [OF this, of seen d u w] True c show ?thesis by auto
  next
    case False
    then have c: "candidateFiles env (f # files) = f # candidateFiles env files"
      by (auto simp: candidateFiles_def)
    with Cons.prems obtain data where rd: "readFile env tempDir (Name f) = Inr data"
      by auto
    then have co: "contentOf env tempDir f = data" by (simp add: contentOf_def)
    from Cons.prems c have IH': "\<forall>f \<in> set (candidateFiles env files). \<exists>data. readFile env tempDir (Name f) = Inr data"
      by simp
    from False have ext: "ToLower env (Ext (Name f)) \<noteq> []" by (simp add: isImageFile_ext_nonempty)
    show ?thesis
    proof (cases "seen (hashBytes env data)")
      case True
      obtain w' where
        "sequentialLoop env files tempDir imgDir seen (d + 1) u (emit (EvReadFile tempDir (Name f)) w)
            = (Inr (d + 1 + (length (candidateFiles env files)
                    - length (firstOccurrences ?key {h. seen h} (candidateFiles env files)))), w')"
        "bufferPool w' = bufferPool (emit (EvReadFile tempDir (Name f)) w)"
        "readFiles (trace w')
              = readFiles (trace (emit (EvReadFile tempDir (Name f)) w))
                @ map (\<lambda>f. (tempDir, Name f)) (candidateFiles env files)"
        "writtenFiles imgDir (trace w')
              = writtenFiles imgDir (trace (emit (EvReadFile tempDir (Name f)) w))
                @ map (\<lambda>(k, f). (imageName k (ToLower env (Ext (Name f))), contentOf env tempDir f))
                    (enumerate u (firstOccurrences ?key {h. seen h} (candidateFiles env files)))"
        "printed (trace w') = printed (trace (emit (EvReadFile tempDir (Name f)) w))"
        using Cons.IH [OF IH', of seen "d + 1" u "emit (EvReadFile tempDir (Name f)) w"] by blast
      with True False rd co c
        firstOccurrences_length_le [of ?key "{h. seen h}" "candidateFiles env files"]
      show ?thesis
        by (simp add: emit_def writtenFiles_append readFiles_append printed_append)
    next
      case notseen: False
      have ins: "{h. (seen(hashBytes env data := True)) h} = insert (hashBytes env data) {h. seen h}"
        by auto
      let ?w1 = "emit (EvWriteFile imgDir (imageName u (ToLower env (Ext (Name f)))) data)
                   (emit (EvReadFile tempDir (Name f)) w)"
      obtain w' where
        "sequentialLoop env files tempDir imgDir (seen(hashBytes env data := True)) d (u + 1) ?w1
            = (Inr (d + (length (candidateFiles env files)
                    - length (firstOccurrences ?key (insert (hashBytes env data) {h. seen h})
                        (candidateFiles env files)))), w')"
        "bufferPool w' = bufferPool ?w1"
        "readFiles (trace w')
              = readFiles (trace ?w1) @ map (\<lambda>f. (tempDir, Name f)) (candidateFiles env files)"
        "writtenFiles imgDir (trace w')
              = writtenFiles imgDir (trace ?w1)
                @ map (\<lambda>(k, f). (imageName k (ToLower env (Ext (Name f))), contentOf env tempDir f))
                    (enumerate (u + 1) (firstOccurrences ?key (insert (hashBytes env data) {h. seen h})
                        (candidateFiles env files)))"
        "printed (trace w') = printed (trace ?w1)"
        using Cons.IH [OF IH', of "seen(hashBytes env data := True)" d "u + 1" ?w1]
        unfolding ins by blast
      with notseen False rd co c ext assms(2) show ?thesis
        by (simp add: emit_def writtenFiles_append readFiles_append printed_append Let_def)
    qed
  qed
qed

lemma candidateFiles_ext:
  "f \<in> set (candidateFiles env files) \<Longrightarrow> \<not> IsDir f \<and> isImageFile env (Name f) \<and> Ext (Name f) \<noteq> []"
  using isImageFile_ext_nonempty [of env "Name f"] by (auto simp: candidateFiles_def ToLower_Nil)

text \<open>
  The strategy when every read and every write succeeds. It returns no error; it reads each
  entry that is not a directory and that \<^verbatim>\<open>isImageFile\<close> accepts once, in order, and no other
  entry; the files it writes are the first occurrences of each hash among these entries,
  with the bytes that were read, named \<^verbatim>\<open>image_%04d\<close> by a counter that starts at 0 and counts
  the files kept, followed by what \<^verbatim>\<open>strings.ToLower\<close> makes of the extension of the entry;
  the number of duplicates is printed when there are any.
\<close>

lemma processExtractedFilesSequential_success:
  assumes "\<forall>f \<in> set (candidateFiles env files). \<exists>data. readFile env tempDir (Name f) = Inr data"
    and "\<forall>name data. writeFile env imgDir name data = None"
  shows "\<exists>w'. processExtractedFilesSequential env files tempDir imgDir w = (None, w')
          \<and> readFiles (trace w')
              = readFiles (trace w) @ map (\<lambda>f. (tempDir, Name f)) (candidateFiles env files)
          \<and> writtenFiles imgDir (trace w')
              = writtenFiles imgDir (trace w)
                @ map (\<lambda>(k, f). (imageName k (ToLower env (Ext (Name f))), contentOf env tempDir f))
                    (enumerate 0 (firstOccurrences (\<lambda>f. hashBytes env (contentOf env tempDir f))
                        {} (candidateFiles env files)))
          \<and> printed (trace w')
              = printed (trace w)
                @ (if length (firstOccurrences (\<lambda>f. hashBytes env (contentOf env tempDir f))
                        {} (candidateFiles env files)) < length (candidateFiles env files)
                   then [skippedMessage (length (candidateFiles env files)
                           - length (firstOccurrences (\<lambda>f. hashBytes env (contentOf env tempDir f))
                               {} (candidateFiles env files)))]
                   else [])
          \<and> (\<forall>f \<in> set (candidateFiles env files).
                \<not> IsDir f \<and> isImageFile env (Name f) \<and> Ext (Name f) \<noteq> [])"
proof -
  let ?K = "firstOccurrences (\<lambda>f. hashBytes env (contentOf env tempDir f)) {} (candidateFiles env files)"
  obtain w1 where
    l: "sequentialLoop env files tempDir imgDir (\<lambda>h. False) 0 0 w
          = (Inr (0 + (length (candidateFiles env files) - length ?K)), w1)"
    and r: "readFiles (trace w1)
              = readFiles (trace w) @ map (\<lambda>f. (tempDir, Name f)) (candidateFiles env files)"
    and wr: "writtenFiles imgDir (trace w1)
              = writtenFiles imgDir (trace w)
                @ map (\<lambda>(k, f). (imageName k (ToLower env (Ext (Name f))), contentOf env tempDir f))
                    (enumerate 0 ?K)"
    and p: "printed (trace w1) = printed (trace w)"
    using sequentialLoop_success [OF assms, of "\<lambda>h. False" 0 0 w] by auto
  have le: "length ?K \<le> length (candidateFiles env files)"
    by (rule firstOccurrences_length_le)
  show ?thesis
  proof (cases "length ?K < length (candidateFiles env files)")
    case True
    with l r wr p candidateFiles_ext [of _ env files] show ?thesis
      by (simp add: processExtractedFilesSequential_def emit_def readFiles_append
          writtenFiles_append printed_append)
  next
    case False
    with le have "length (candidateFiles env files) - length ?K = 0" by simp
    with False l r wr p candidateFiles_ext [of _ env files] show ?thesis
      by (simp add: processExtractedFilesSequential_def)
  qed
qed

lemma processExtractedFilesSequential_sample:
  "\<exists>w'. processExtractedFilesSequential sampleEnv sampleFiles ''tmp'' ''out'' world0 = (None, w')
     \<and> readFiles (trace w') = [(''tmp'', ''a.png''), (''tmp'', ''b.png''), (''tmp'', ''c.jpg'')]
     \<and> writtenFiles ''out'' (trace w') = [(''image_0000.png'', [1]), (''image_0001.jpg'', [2])]
     \<and> printed (trace w') = [''skipped 1 duplicate image(s)'' @ [CHR 0x0A]]"
proof -
  have c: "candidateFiles sampleEnv sampleFiles = sampleFiles" by code_simp
  have k: "firstOccurrences (\<lambda>f. hashBytes sampleEnv (contentOf sampleEnv ''tmp'' f)) {} sampleFiles
             = [\<lparr>Name = ''a.png'', IsDir = False\<rparr>, \<lparr>Name = ''c.jpg'', IsDir = False\<rparr>]"
    by code_simp
  have n: "map (\<lambda>(k, f). (imageName k (ToLower sampleEnv (Ext (Name f))), contentOf sampleEnv ''tmp'' f))
             (enumerate 0 [\<lparr>Name = ''a.png'', IsDir = False\<rparr>, \<lparr>Name = ''c.jpg'', IsDir = False\<rparr>])
           = [(''image_0000.png'', [1]), (''image_0001.jpg'', [2])]"
    by code_simp
  have m: "skippedMessage (Suc 0) = ''skipped 1 duplicate image(s)'' @ [CHR 0x0A]" by code_simp
  have r: "\<forall>f \<in> set (candidateFiles sampleEnv sampleFiles). \<exists>data. readFile sampleEnv ''tmp'' (Name f) = Inr data"
    by (simp add: sampleEnv_def)
  have w: "\<forall>name data. writeFile sampleEnv ''out'' name data = None"
    by (simp add: sampleEnv_def)
  have l: "length sampleFiles = 3" by (simp add: sampleFiles_def)
  have s: "map (\<lambda>f. (''tmp'', Name f)) sampleFiles
             = [(''tmp'', ''a.png''), (''tmp'', ''b.png''), (''tmp'', ''c.jpg'')]"
    by (simp add: sampleFiles_def)
  from processExtractedFilesSequential_success [OF r w, of world0]
  show ?thesis
    unfolding c k n by (auto simp: l s m world0_def)
qed

text \<open>
  C6 at two listings of the temporary directory, with the format \<^verbatim>\<open>original\<close>. The loop says
  of itself that it copies the file "preserving original extension", and it gives a file
  whose extension is empty the extension \<^verbatim>\<open>.png\<close>. But the test of \<^verbatim>\<open>isImageFile\<close> at the head
  of the loop has already passed over every file whose extension is empty, and the
  extension it writes is the lowered one. So a file \<^verbatim>\<open>README\<close>, which has no extension, is
  neither read nor copied as \<^verbatim>\<open>image_0000.png\<close>: the run returns no error, reads nothing and
  writes nothing; and the file \<^verbatim>\<open>A.PNG\<close> is read and copied as \<^verbatim>\<open>image_0000.png\<close>, not with
  its extension \<^verbatim>\<open>.PNG\<close>.
\<close>

theorem sequential_extension_not_preserved:
  "Ext ''README'' = []
   \<and> fst (ExtractImagesFromFile
           (sampleEnv\<lparr>readDir := \<lambda>dir. Inr [\<lparr>Name = ''README'', IsDir = False\<rparr>]\<rparr>)
           [] ''in.pdf'' ''out'' ''original'' world0) = None
   \<and> readFiles
        (trace (snd (ExtractImagesFromFile
           (sampleEnv\<lparr>readDir := \<lambda>dir. Inr [\<lparr>Name = ''README'', IsDir = False\<rparr>]\<rparr>)
           [] ''in.pdf'' ''out'' ''original'' world0))) = []
   \<and> writtenFiles ''out''
        (trace (snd (ExtractImagesFromFile
           (sampleEnv\<lparr>readDir := \<lambda>dir. Inr [\<lparr>Name = ''README'', IsDir = False\<rparr>]\<rparr>)
           [] ''in.pdf'' ''out'' ''original'' world0))) = []
   \<and> Ext ''A.PNG'' = ''.PNG''
   \<and> fst (ExtractImagesFromFile
           (sampleEnv\<lparr>readDir := \<lambda>dir. Inr [\<lparr>Name = ''A.PNG'', IsDir = False\<rparr>]\<rparr>)
           [] ''in.pdf'' ''out'' ''original'' world0) = None
   \<and> readFiles
        (trace (snd (ExtractImagesFromFile
           (sampleEnv\<lparr>readDir := \<lambda>dir. Inr [\<lparr>Name = ''A.PNG'', IsDir = False\<rparr>]\<rparr>)
           [] ''in.pdf'' ''out'' ''original'' world0))) = [(''tmp'', ''A.PNG'')]
   \<and> writtenFiles ''out''
        (trace (snd (ExtractImagesFromFile
           (sampleEnv\<lparr>readDir := \<lambda>dir. Inr [\<lparr>Name = ''A.PNG'', IsDir = False\<rparr>]\<rparr>)
           [] ''in.pdf'' ''out'' ''original'' world0))) = [(''image_0000.png'', [1])]"
  by code_simp

section \<open>Names and buffers of the writer\<close>

lemma pad04_0: "pad04 0 = ''0000''"
  by code_simp

lemma pad04_1: "pad04 (Suc 0) = ''0001''"
  by code_simp

lemma imageName_0: "imageName 0 ext = ''image_0000'' @ ext"
  by (simp add: imageName_def pad04_0)

lemma imageName_1: "imageName (Suc 0) ext = ''image_0001'' @ ext"
  by (simp add: imageName_def pad04_1)

lemma getBuffer_clean:
  "list_all (\<lambda>buf. buf = []) pool \<Longrightarrow>
     fst (getBuffer k pool) = [] \<and> list_all (\<lambda>buf. buf = []) (snd (getBuffer k pool))"
  by (auto simp: getBuffer_def list_all_iff dest: in_set_takeD in_set_dropD)

lemma getBuffer_length:
  "length (snd (getBuffer k pool)) = (if k < length pool then length pool - 1 else length pool)"
  by (auto simp: getBuffer_def)

text \<open>
  One call of the writer on a clean pool: what it returns, what it writes, and the pool
  it leaves.
\<close>

lemma writeImageFile_clean:
  assumes "poolClean w"
  shows "writeImageFile env k img encoder imgDir index w =
           (case snd (Encode encoder img) of
              Some e \<Rightarrow> (Some (Wrapf ''encode'' e), w\<lparr>bufferPool := [] # snd (getBuffer k (bufferPool w))\<rparr>)
            | None \<Rightarrow>
                (case writeFile env imgDir (imageName (index + 1) (Extension encoder))
                        (fst (Encode encoder img)) of
                   Some e \<Rightarrow>
                     (Some e,
                      \<lparr>bufferPool = [] # snd (getBuffer k (bufferPool w)),
                       trace = trace w @ [EvWriteFailed imgDir (imageName (index + 1) (Extension encoder))]\<rparr>)
                 | None \<Rightarrow>
                     (None,
                      \<lparr>bufferPool = [] # snd (getBuffer k (bufferPool w)),
                       trace = trace w @ [EvWriteFile imgDir (imageName (index + 1) (Extension encoder))
                                            (fst (Encode encoder img))]\<rparr>)))"
proof -
  obtain buf pool where g: "getBuffer k (bufferPool w) = (buf, pool)"
    by (cases "getBuffer k (bufferPool w)")
  with getBuffer_clean [of "bufferPool w" k] assms have b: "buf = []"
    by (simp add: poolClean_def)
  obtain written err where e: "Encode encoder img = (written, err)"
    by (cases "Encode encoder img")
  show ?thesis
    by (simp add: writeImageFile_def g b e Let_def putBuffer_def Reset_def emit_def
        split: option.splits)
qed

lemma writeImageFile_poolClean:
  assumes "poolClean w"
  shows "poolClean (snd (writeImageFile env k img encoder imgDir index w))"
proof -
  have "list_all (\<lambda>buf. buf = []) (snd (getBuffer k (bufferPool w)))"
    using assms getBuffer_clean [of "bufferPool w" k] by (simp add: poolClean_def)
  then show ?thesis
    by (simp add: writeImageFile_clean [OF assms] poolClean_def split: option.splits)
qed

lemma makeTasks_Cons:
  "makeTasks (li # rest) = WriteTask 0 (Img li) # map (\<lambda>t. WriteTask (Suc (Index t)) (TaskImg t)) (makeTasks rest)"
proof -
  have "zip [0..<Suc (length rest)] (li # rest) = (0, li) # zip (map Suc [0..<length rest]) rest"
    by (simp add: upt_conv_Cons map_Suc_upt del: upt_Suc)
  also have "zip (map Suc [0..<length rest]) rest = map (\<lambda>(i, x). (Suc i, x)) (zip [0..<length rest] rest)"
    by (simp add: zip_map1)
  finally show ?thesis
    by (simp add: makeTasks_def case_prod_beta comp_def)
qed

text \<open>
  C9. The sequential strategy names the first file it keeps \<^verbatim>\<open>image_0000\<close> followed by the
  extension (when its reads and writes succeed, that file is the first entry that is not a
  directory and has a recognised extension). The re-encoding strategy gives the first
  unique image the task index 0, and the writer names the file of that task
  \<^verbatim>\<open>image_0001\<close> followed by the extension of the encoder.
\<close>

theorem index_bases_differ:
  "((\<forall>g \<in> set (candidateFiles env files). \<exists>data. readFile env tempDir (Name g) = Inr data)
     \<and> (\<forall>name data. writeFile env imgDir name data = None)
     \<and> candidateFiles env files = f # fs
     \<longrightarrow> (\<exists>w' more. processExtractedFilesSequential env files tempDir imgDir w = (None, w')
            \<and> writtenFiles imgDir (trace w')
                = writtenFiles imgDir (trace w)
                  @ (''image_0000'' @ ToLower env (Ext (Name f)), contentOf env tempDir f) # more))
   \<and> (poolClean w \<and> Encode encoder (Img li) = (bytes, None)
       \<and> writeFile env imgDir (''image_0001'' @ Extension encoder) bytes = None
     \<longrightarrow> hd (makeTasks (li # rest)) = WriteTask 0 (Img li)
         \<and> fst (writeImageFile env k (TaskImg (hd (makeTasks (li # rest)))) encoder imgDir
                  (Index (hd (makeTasks (li # rest)))) w) = None
         \<and> trace (snd (writeImageFile env k (TaskImg (hd (makeTasks (li # rest)))) encoder imgDir
                  (Index (hd (makeTasks (li # rest)))) w))
             = trace w @ [EvWriteFile imgDir (''image_0001'' @ Extension encoder) bytes])"
proof (intro conjI impI)
  let ?key = "\<lambda>f. hashBytes env (contentOf env tempDir f)"
  assume a: "(\<forall>g \<in> set (candidateFiles env files). \<exists>data. readFile env tempDir (Name g) = Inr data)
     \<and> (\<forall>name data. writeFile env imgDir name data = None)
     \<and> candidateFiles env files = f # fs"
  then obtain w1 where
    l: "sequentialLoop env files tempDir imgDir (\<lambda>h. False) 0 0 w
          = (Inr (0 + (length (candidateFiles env files)
               - length (firstOccurrences ?key {} (candidateFiles env files)))), w1)"
    and wr: "writtenFiles imgDir (trace w1)
              = writtenFiles imgDir (trace w)
                @ map (\<lambda>(k, f). (imageName k (ToLower env (Ext (Name f))), contentOf env tempDir f))
                    (enumerate 0 (firstOccurrences ?key {} (candidateFiles env files)))"
    using sequentialLoop_success [of env files tempDir imgDir "\<lambda>h. False" 0 0 w] by auto
  from a have k: "firstOccurrences ?key {} (candidateFiles env files)
                    = f # firstOccurrences ?key {?key f} fs"
    by simp
  show "\<exists>w' more. processExtractedFilesSequential env files tempDir imgDir w = (None, w')
            \<and> writtenFiles imgDir (trace w')
                = writtenFiles imgDir (trace w)
                  @ (''image_0000'' @ ToLower env (Ext (Name f)), contentOf env tempDir f) # more"
    using l wr unfolding k
    by (auto simp: processExtractedFilesSequential_def emit_def writtenFiles_append imageName_0)
next
  assume "poolClean w \<and> Encode encoder (Img li) = (bytes, None)
       \<and> writeFile env imgDir (''image_0001'' @ Extension encoder) bytes = None"
  then show "hd (makeTasks (li # rest)) = WriteTask 0 (Img li)"
    by (simp add: makeTasks_Cons)
next
  assume a: "poolClean w \<and> Encode encoder (Img li) = (bytes, None)
       \<and> writeFile env imgDir (''image_0001'' @ Extension encoder) bytes = None"
  then have "poolClean w" by simp
  from writeImageFile_clean [OF this, of env k "Img li" encoder imgDir 0] a
  show "fst (writeImageFile env k (TaskImg (hd (makeTasks (li # rest)))) encoder imgDir
                  (Index (hd (makeTasks (li # rest)))) w) = None"
    by (simp add: makeTasks_Cons imageName_1)
next
  assume a: "poolClean w \<and> Encode encoder (Img li) = (bytes, None)
       \<and> writeFile env imgDir (''image_0001'' @ Extension encoder) bytes = None"
  then have "poolClean w" by simp
  from writeImageFile_clean [OF this, of env k "Img li" encoder imgDir 0] a
  show "trace (snd (writeImageFile env k (TaskImg (hd (makeTasks (li # rest)))) encoder imgDir
                  (Index (hd (makeTasks (li # rest)))) w))
             = trace w @ [EvWriteFile imgDir (''image_0001'' @ Extension encoder) bytes]"
    by (simp add: makeTasks_Cons imageName_1)
qed

theorem index_bases_differ_witness:
  "(\<exists>w' more. processExtractedFilesSequential sampleEnv sampleFiles ''tmp'' ''out'' world0 = (None, w')
       \<and> writtenFiles ''out'' (trace w') = (''image_0000.png'', [1]) # more)
   \<and> trace (snd (writeImageFile sampleEnv 0 2 (PNGEncoder sampleEnv) ''out'' 0 world0))
       = [EvWriteFile ''out'' ''image_0001.png'' [7, 2]]
   \<and> writtenFiles ''out''
        (trace (snd (ExtractImagesFromFile sampleEnv [] ''in.pdf'' ''out'' ''original'' world0)))
       = [(''image_0000.png'', [1]), (''image_0001.jpg'', [2])]
   \<and> writtenFiles ''out''
        (trace (snd (ExtractImagesFromFile sampleEnv [] ''in.pdf'' ''out'' ''png'' world0)))
       = [(''image_0001.png'', [7, 2]), (''image_0002.png'', [7, 3])]"
proof -
  let ?a = "\<lparr>Name = ''a.png'', IsDir = False\<rparr>"
  let ?li = "\<lparr>Img = 2::nat, FileHash = ''aa''\<rparr>"
  have c: "candidateFiles sampleEnv sampleFiles
             = ?a # [\<lparr>Name = ''b.png'', IsDir = False\<rparr>, \<lparr>Name = ''c.jpg'', IsDir = False\<rparr>]"
    by code_simp
  have e: "ToLower sampleEnv (Ext (Name ?a)) = ''.png''" by code_simp
  have co: "contentOf sampleEnv ''tmp'' ?a = [1]" by (simp add: contentOf_def sampleEnv_def)
  have p: "poolClean world0" by (simp add: poolClean_def world0_def)
  have t0: "trace world0 = []" by (simp add: world0_def)
  have h1: "\<forall>g \<in> set (candidateFiles sampleEnv sampleFiles). \<exists>data. readFile sampleEnv ''tmp'' (Name g) = Inr data"
    by (simp add: sampleEnv_def)
  have h2: "\<forall>name data. writeFile sampleEnv ''out'' name data = None"
    by (simp add: sampleEnv_def)
  have ext: "Extension (PNGEncoder sampleEnv) = ''.png''" by (simp add: PNGEncoder_def)
  have enc: "Encode (PNGEncoder sampleEnv) (Img ?li) = ([7, 2], None)"
    by (simp add: PNGEncoder_def sampleEnv_def)
  have wf: "writeFile sampleEnv ''out'' (''image_0001'' @ Extension (PNGEncoder sampleEnv)) [7, 2] = None"
    by (simp add: sampleEnv_def)
  have runs:
    "writtenFiles ''out''
        (trace (snd (ExtractImagesFromFile sampleEnv [] ''in.pdf'' ''out'' ''original'' world0)))
       = [(''image_0000.png'', [1]), (''image_0001.jpg'', [2])]
     \<and> writtenFiles ''out''
        (trace (snd (ExtractImagesFromFile sampleEnv [] ''in.pdf'' ''out'' ''png'' world0)))
       = [(''image_0001.png'', [7, 2]), (''image_0002.png'', [7, 3])]"
    by code_simp
  note T = index_bases_differ
    [where files = sampleFiles and env = sampleEnv and tempDir = "''tmp''" and imgDir = "''out''"
       and f = ?a
       and fs = "[\<lparr>Name = ''b.png'', IsDir = False\<rparr>, \<lparr>Name = ''c.jpg'', IsDir = False\<rparr>]"
       and w = world0 and encoder = "PNGEncoder sampleEnv" and li = ?li
       and bytes = "[7, 2]" and rest = "[]" and k = 0]
  have A: "\<exists>w' more. processExtractedFilesSequential sampleEnv sampleFiles ''tmp'' ''out'' world0 = (None, w')
            \<and> writtenFiles ''out'' (trace w')
                = writtenFiles ''out'' (trace world0)
                  @ (''image_0000'' @ ToLower sampleEnv (Ext (Name ?a)), contentOf sampleEnv ''tmp'' ?a) # more"
    using T h1 h2 c by blast
  have B: "hd (makeTasks [?li]) = WriteTask 0 (Img ?li)
         \<and> fst (writeImageFile sampleEnv 0 (TaskImg (hd (makeTasks [?li]))) (PNGEncoder sampleEnv) ''out''
                  (Index (hd (makeTasks [?li]))) world0) = None
         \<and> trace (snd (writeImageFile sampleEnv 0 (TaskImg (hd (makeTasks [?li]))) (PNGEncoder sampleEnv) ''out''
                  (Index (hd (makeTasks [?li]))) world0))
             = trace world0 @ [EvWriteFile ''out'' (''image_0001'' @ Extension (PNGEncoder sampleEnv)) [7, 2]]"
    using T p enc wf by blast
  have hd: "hd (makeTasks [?li]) = WriteTask 0 2" by (simp add: makeTasks_Cons)
  from B have B': "trace (snd (writeImageFile sampleEnv 0 2 (PNGEncoder sampleEnv) ''out'' 0 world0))
             = [EvWriteFile ''out'' ''image_0001.png'' [7, 2]]"
    unfolding hd by (simp add: t0 ext)
  from A have A': "\<exists>w' more. processExtractedFilesSequential sampleEnv sampleFiles ''tmp'' ''out'' world0 = (None, w')
       \<and> writtenFiles ''out'' (trace w') = (''image_0000.png'', [1]) # more"
    unfolding e co t0 by simp
  from A' B' runs show ?thesis by blast
qed

section \<open>Moves of the goroutines\<close>

text \<open>The moves, one by one: every move of \<open>step\<close> is one of these.\<close>

lemma step_cases [case_names stutter send close receive exit_closed exit_failed start
    writing report_ok store report_err]:
  obtains
    "step env encoder imgDir a s = s"
  | task rest where "a = Main" "\<not> taskChanClosed s" "pending s = task # rest"
      "step env encoder imgDir a s = s\<lparr>pending := rest, taskChan := taskChan s @ [task]\<rparr>"
  | "a = Main" "\<not> taskChanClosed s" "pending s = []"
      "step env encoder imgDir a s = s\<lparr>taskChanClosed := True\<rparr>"
  | i k task rest where "a = Worker i k" "i < length (workers s)" "workers s ! i = Idle"
      "taskChan s = task # rest"
      "step env encoder imgDir a s = s\<lparr>taskChan := rest, workers := (workers s)[i := Got task]\<rparr>"
  | i k where "a = Worker i k" "i < length (workers s)" "workers s ! i = Idle"
      "taskChan s = []" "taskChanClosed s"
      "step env encoder imgDir a s = s\<lparr>workers := (workers s)[i := Exited]\<rparr>"
  | i k task where "a = Worker i k" "i < length (workers s)" "workers s ! i = Got task" "failed s"
      "step env encoder imgDir a s = s\<lparr>workers := (workers s)[i := Exited]\<rparr>"
  | i k task where "a = Worker i k" "i < length (workers s)" "workers s ! i = Got task"
      "\<not> failed s"
      "step env encoder imgDir a s = s\<lparr>workers := (workers s)[i := Running task]\<rparr>"
  | i k task where "a = Worker i k" "i < length (workers s)" "workers s ! i = Running task"
      "step env encoder imgDir a s =
         s\<lparr>workers := (workers s)
               [i := Returned (fst (writeImageFile env k (TaskImg task) encoder imgDir (Index task) (world s)))],
           world := snd (writeImageFile env k (TaskImg task) encoder imgDir (Index task) (world s))\<rparr>"
  | i k where "a = Worker i k" "i < length (workers s)" "workers s ! i = Returned None"
      "step env encoder imgDir a s =
         s\<lparr>resultChan := resultChan s @ [None], workers := (workers s)[i := Idle]\<rparr>"
  | i k e where "a = Worker i k" "i < length (workers s)" "workers s ! i = Returned (Some e)"
      "step env encoder imgDir a s = s\<lparr>failed := True, workers := (workers s)[i := Stored e]\<rparr>"
  | i k e where "a = Worker i k" "i < length (workers s)" "workers s ! i = Stored e"
      "step env encoder imgDir a s =
         s\<lparr>resultChan := resultChan s @ [Some e], workers := (workers s)[i := Idle]\<rparr>"
proof (cases a)
  case Main
  show ?thesis
  proof (cases "taskChanClosed s")
    case True
    with Main have "step env encoder imgDir a s = s" by simp
    then show ?thesis by (rule that(1))
  next
    case False
    show ?thesis
    proof (cases "pending s")
      case Nil
      with Main False show ?thesis by (intro that(3)) (simp_all add: mainStep_def)
    next
      case (Cons task rest)
      with Main False show ?thesis by (intro that(2)) (simp_all add: mainStep_def)
    qed
  qed
next
  case (Worker i k)
  show ?thesis
  proof (cases "i < length (workers s)")
    case False
    with Worker have "step env encoder imgDir a s = s" by simp
    then show ?thesis by (rule that(1))
  next
    case True
    show ?thesis
    proof (cases "workers s ! i")
      case Idle
      show ?thesis
      proof (cases "taskChan s")
        case Nil
        show ?thesis
        proof (cases "taskChanClosed s")
          case c: True
          with Worker True Idle Nil show ?thesis
            by (intro that(5)) (simp_all add: workerStep_def)
        next
          case c: False
          with Worker True Idle Nil have "step env encoder imgDir a s = s"
            by (simp add: workerStep_def)
          then show ?thesis by (rule that(1))
        qed
      next
        case (Cons task rest)
        with Worker True Idle show ?thesis
          by (intro that(4)) (simp_all add: workerStep_def)
      qed
    next
      case (Got task)
      show ?thesis
      proof (cases "failed s")
        case f: True
        with Worker True Got show ?thesis by (intro that(6)) (simp_all add: workerStep_def)
      next
        case f: False
        with Worker True Got show ?thesis by (intro that(7)) (simp_all add: workerStep_def)
      qed
    next
      case (Running task)
      with Worker True show ?thesis
        by (intro that(8)) (simp_all add: workerStep_def case_prod_beta)
    next
      case (Returned r)
      show ?thesis
      proof (cases r)
        case None
        with Worker True Returned show ?thesis by (intro that(9)) (simp_all add: workerStep_def)
      next
        case (Some e)
        with Worker True Returned show ?thesis by (intro that(10)) (simp_all add: workerStep_def)
      qed
    next
      case (Stored e)
      with Worker True show ?thesis by (intro that(11)) (simp_all add: workerStep_def)
    next
      case Exited
      with Worker True have "step env encoder imgDir a s = s" by (simp add: workerStep_def)
      then show ?thesis by (rule that(1))
    qed
  qed
qed

text \<open>What every move keeps, every run keeps.\<close>

lemma exec_invariant:
  assumes "\<And>a s. P s \<Longrightarrow> P (step env encoder imgDir a s)" and "P s"
  shows "P (exec env encoder imgDir sched s)"
  using assms(2) unfolding exec_def
  by (induction sched arbitrary: s) (simp_all add: assms(1))

lemma drain_stop: "nextActor s = None \<Longrightarrow> drain env encoder imgDir s = s"
  by (subst drain.simps) simp

lemma drain_go:
  "nextActor s = Some a \<Longrightarrow>
     drain env encoder imgDir s = drain env encoder imgDir (step env encoder imgDir a s)"
  by (subst drain.simps) simp

lemma nextActor_None: "nextActor s = None \<longleftrightarrow> finished s"
  by (auto simp: nextActor_def finished_def find_None_iff list_all_length)

lemma drain_finished: "finished (drain env encoder imgDir s)"
proof (induction env encoder imgDir s rule: drain.induct)
  case (1 env encoder imgDir s)
  show ?case
  proof (cases "nextActor s")
    case None
    then have "finished s" by (simp only: nextActor_None)
    with None show ?thesis by (simp only: drain_stop)
  next
    case (Some a)
    with "1.IH" [OF Some] show ?thesis by (simp only: drain_go)
  qed
qed

lemma exec_append:
  "exec env encoder imgDir (xs @ ys) s = exec env encoder imgDir ys (exec env encoder imgDir xs s)"
  by (simp add: exec_def)

lemma drain_is_exec:
  "\<exists>sched. drain env encoder imgDir s = exec env encoder imgDir sched s"
proof (induction env encoder imgDir s rule: drain.induct)
  case (1 env encoder imgDir s)
  show ?case
  proof (cases "nextActor s")
    case None
    then have "drain env encoder imgDir s = exec env encoder imgDir [] s"
      by (simp add: drain_stop exec_def)
    then show ?thesis by blast
  next
    case (Some a)
    from "1.IH" [OF Some] obtain sched where
      "drain env encoder imgDir (step env encoder imgDir a s)
         = exec env encoder imgDir sched (step env encoder imgDir a s)"
      by blast
    with Some have "drain env encoder imgDir s = exec env encoder imgDir (a # sched) s"
      by (simp add: drain_go exec_def)
    then show ?thesis by blast
  qed
qed

text \<open>A run is a schedule that ends in a finished state.\<close>

lemma runWorkers_is_exec:
  "\<exists>sched'. runWorkers env encoder imgDir sched s = exec env encoder imgDir sched' s
            \<and> finished (exec env encoder imgDir sched' s)"
proof -
  obtain rest where
    "drain env encoder imgDir (exec env encoder imgDir sched s)
       = exec env encoder imgDir rest (exec env encoder imgDir sched s)"
    using drain_is_exec by blast
  then have "runWorkers env encoder imgDir sched s = exec env encoder imgDir (sched @ rest) s"
    by (simp add: runWorkers_def exec_append)
  moreover have "finished (runWorkers env encoder imgDir sched s)"
    by (simp add: runWorkers_def drain_finished)
  ultimately show ?thesis by metis
qed

lemma runWorkers_finished_schedule:
  "finished (exec env encoder imgDir sched s) \<Longrightarrow>
     runWorkers env encoder imgDir sched s = exec env encoder imgDir sched s"
  by (simp add: runWorkers_def drain_stop nextActor_None)

lemma runWorkers_invariant:
  assumes "\<And>a s. P s \<Longrightarrow> P (step env encoder imgDir a s)" and "P s"
  shows "P (runWorkers env encoder imgDir sched s)"
proof -
  obtain sched' where "runWorkers env encoder imgDir sched s = exec env encoder imgDir sched' s"
    using runWorkers_is_exec by blast
  with exec_invariant [of P env encoder imgDir s sched', OF assms] show ?thesis by simp
qed

section \<open>Files and buffers of a batch\<close>

lemma held_update:
  "i < length ps \<Longrightarrow>
     sum_list (map held (ps[i := p])) + held (ps ! i) = sum_list (map held ps) + held p"
proof (induction ps arbitrary: i)
  case Nil
  then show ?case by simp
next
  case (Cons q qs)
  show ?case
  proof (cases i)
    case 0
    then show ?thesis by simp
  next
    case (Suc j)
    with Cons.prems have "j < length qs" by simp
    from Cons.IH [OF this] Suc show ?thesis by (simp add: add.assoc)
  qed
qed

lemma held_update_empty:
  "i < length ps \<Longrightarrow> held (ps ! i) = {#} \<Longrightarrow>
     sum_list (map held (ps[i := p])) = sum_list (map held ps) + held p"
  using held_update [of i ps p] by simp

lemma held_update_same:
  "i < length ps \<Longrightarrow> held (ps ! i) = held p \<Longrightarrow>
     sum_list (map held (ps[i := p])) = sum_list (map held ps)"
  using held_update [of i ps p] by simp

lemma held_update_release:
  "i < length ps \<Longrightarrow> held (ps ! i) = {#task#} \<Longrightarrow> held p = {#} \<Longrightarrow>
     sum_list (map held (ps[i := p])) + {#task#} = sum_list (map held ps)"
  using held_update [of i ps p] by simp

lemma held_member:
  "i < length ps \<Longrightarrow> task \<in># held (ps ! i) \<Longrightarrow> task \<in># sum_list (map held ps)"
proof (induction ps arbitrary: i)
  case Nil
  then show ?case by simp
next
  case (Cons q qs)
  then show ?case by (cases i) auto
qed

text \<open>The trace after one call of the writer on a clean pool.\<close>

lemma writeImageFile_written:
  assumes "poolClean w"
  shows "writtenFiles imgDir (trace (snd (writeImageFile env k (TaskImg task) encoder imgDir (Index task) w)))
           = writtenFiles imgDir (trace w)
             @ (if fst (writeImageFile env k (TaskImg task) encoder imgDir (Index task) w) = None
                then [fileOf encoder task] else [])"
  by (simp add: writeImageFile_clean [OF assms] writtenFiles_append fileOf_def split: option.splits)

text \<open>No move adds a task to the tasks that are not written yet.\<close>

lemma openTasks_step: "openTasks (step env encoder imgDir a s) \<subseteq># openTasks s"
proof (cases rule: step_cases [of env encoder imgDir a s])
  case stutter
  then show ?thesis by simp
next
  case (send task rest)
  then show ?thesis by (simp add: openTasks_def)
next
  case close
  then show ?thesis by (simp add: openTasks_def)
next
  case (receive i k task rest)
  then show ?thesis by (simp add: openTasks_def held_update_empty)
next
  case (exit_closed i k)
  then show ?thesis by (simp add: openTasks_def held_update_same)
next
  case (exit_failed i k task)
  then have "sum_list (map held ((workers s)[i := Exited])) + {#task#} = sum_list (map held (workers s))"
    using held_update_release [of i "workers s" task Exited] by simp
  then have "sum_list (map held ((workers s)[i := Exited])) \<subseteq># sum_list (map held (workers s))"
    by (metis mset_subset_eq_add_left)
  with exit_failed show ?thesis by (simp add: openTasks_def)
next
  case (start i k task)
  then show ?thesis by (simp add: openTasks_def held_update_same)
next
  case (writing i k task)
  let ?r = "Returned (fst (writeImageFile env k (TaskImg task) encoder imgDir (Index task) (world s)))"
  from writing have "sum_list (map held ((workers s)[i := ?r])) + {#task#} = sum_list (map held (workers s))"
    using held_update_release [of i "workers s" task ?r] by simp
  then have "sum_list (map held ((workers s)[i := ?r])) \<subseteq># sum_list (map held (workers s))"
    by (metis mset_subset_eq_add_left)
  with writing show ?thesis by (simp add: openTasks_def)
next
  case (report_ok i k)
  then show ?thesis by (simp add: openTasks_def held_update_same)
next
  case (store i k e)
  then show ?thesis by (simp add: openTasks_def held_update_same)
next
  case (report_err i k e)
  then show ?thesis by (simp add: openTasks_def held_update_same)
qed

text \<open>A move leaves the world as it is, or it is one call of the writer on a task held.\<close>

lemma step_world:
  obtains "world (step env encoder imgDir a s) = world s"
  | i k task where "a = Worker i k" "i < length (workers s)" "workers s ! i = Running task"
      "task \<in># openTasks s"
      "world (step env encoder imgDir a s)
         = snd (writeImageFile env k (TaskImg task) encoder imgDir (Index task) (world s))"
proof (cases rule: step_cases [of env encoder imgDir a s])
  case (writing i k task)
  then have "task \<in># sum_list (map held (workers s))"
    using held_member [of i "workers s" task] by simp
  then have "task \<in># openTasks s" by (simp add: openTasks_def)
  with writing show ?thesis by (intro that(2)) simp_all
qed (simp_all add: that(1))

lemma filesFromTasks_step:
  assumes "filesFromTasks encoder imgDir T W s"
  shows "filesFromTasks encoder imgDir T W (step env encoder imgDir a s)"
proof -
  from assms have pc: "poolClean (world s)" and op: "set_mset (openTasks s) \<subseteq> T"
    and wr: "set (writtenFiles imgDir (trace (world s))) \<subseteq> W \<union> fileOf encoder ` T"
    by (simp_all add: filesFromTasks_def)
  have op': "set_mset (openTasks (step env encoder imgDir a s)) \<subseteq> T"
    using openTasks_step [of env encoder imgDir a s] op set_mset_mono by blast
  show ?thesis
  proof (cases rule: step_world [of env encoder imgDir a s])
    case 1
    with pc op' wr show ?thesis by (simp add: filesFromTasks_def)
  next
    case (2 i k task)
    with op have "task \<in> T" by blast
    with 2 pc op' wr show ?thesis
      by (auto simp: filesFromTasks_def writeImageFile_poolClean writeImageFile_written)
  qed
qed

lemma held_Idle: "sum_list (map held (replicate n Idle)) = {#}"
  by (induction n) simp_all

lemma filesFromTasks_start:
  "poolClean w \<Longrightarrow>
     filesFromTasks encoder imgDir (set tasks) (set (writtenFiles imgDir (trace w)))
       (startBatch tasks n w)"
  by (simp add: filesFromTasks_def startBatch_def openTasks_def held_Idle)

lemma filesFromTasks_run:
  assumes "poolClean w"
  shows "filesFromTasks encoder imgDir (set tasks) (set (writtenFiles imgDir (trace w)))
           (runWorkers env encoder imgDir sched (startBatch tasks n w))"
  by (rule runWorkers_invariant [where P = "filesFromTasks encoder imgDir (set tasks) (set (writtenFiles imgDir (trace w)))"])
     (simp_all add: filesFromTasks_step filesFromTasks_start [OF assms])

section \<open>A batch in which nothing fails\<close>

lemma list_all_update: "list_all P xs \<Longrightarrow> P y \<Longrightarrow> list_all P (xs[i := y])"
  using set_update_subset_insert [of xs i y] by (auto simp: list_all_iff)

lemma Exited_update: "Exited \<in> set (ps[i := p]) \<Longrightarrow> p \<noteq> Exited \<Longrightarrow> Exited \<in> set ps"
  using set_update_subset_insert [of ps i p] by auto

lemma writeImageFile_succeeds:
  assumes "poolClean w" and "snd (Encode encoder (TaskImg task)) = None"
    and "writeFile env imgDir (fst (fileOf encoder task)) (snd (fileOf encoder task)) = None"
  shows "fst (writeImageFile env k (TaskImg task) encoder imgDir (Index task) w) = None"
  using assms(2,3) by (simp add: writeImageFile_clean [OF assms(1)] fileOf_def)

lemma noFailure_step:
  assumes ok: "allSucceed env encoder imgDir (set tasks)"
    and inv: "noFailure encoder imgDir tasks W s"
  shows "noFailure encoder imgDir tasks W (step env encoder imgDir a s)"
proof -
  from inv have pc: "poolClean (world s)" and nf: "\<not> failed s"
    and rc: "set (resultChan s) \<subseteq> {None}" and ph: "list_all okPhase (workers s)"
    and cl: "taskChanClosed s \<longrightarrow> pending s = []"
    and ex: "Exited \<in> set (workers s) \<longrightarrow> taskChanClosed s \<and> taskChan s = []"
    and op: "set_mset (openTasks s) \<subseteq> set tasks"
    and eq: "mset (writtenFiles imgDir (trace (world s))) + image_mset (fileOf encoder) (openTasks s)
          = W + image_mset (fileOf encoder) (mset tasks)"
    by (simp_all add: noFailure_def)
  show ?thesis
  proof (cases rule: step_cases [of env encoder imgDir a s])
    case stutter
    with inv show ?thesis by simp
  next
    case (send task rest)
    have "Exited \<notin> set (workers s)" using ex send by auto
    with send pc nf rc ph cl op eq show ?thesis
      by (simp add: noFailure_def openTasks_def)
  next
    case close
    with pc nf rc ph cl ex op eq show ?thesis
      by (auto simp: noFailure_def openTasks_def)
  next
    case (receive i k task rest)
    have "Exited \<notin> set (workers s)" using ex receive by auto
    then have "Exited \<notin> set ((workers s)[i := Got task])"
      using Exited_update [of "workers s" i "Got task"] by auto
    with receive pc nf rc ph cl op eq show ?thesis
      by (simp add: noFailure_def openTasks_def held_update_empty list_all_update)
  next
    case (exit_closed i k)
    with pc nf rc ph cl ex op eq show ?thesis
      by (simp add: noFailure_def openTasks_def held_update_same list_all_update)
  next
    case (exit_failed i k task)
    with nf show ?thesis by simp
  next
    case (start i k task)
    have "Exited \<in> set ((workers s)[i := Running task]) \<longrightarrow> Exited \<in> set (workers s)"
      using Exited_update [of "workers s" i "Running task"] by auto
    with start pc nf rc ph cl ex op eq show ?thesis
      by (simp add: noFailure_def openTasks_def held_update_same list_all_update)
  next
    case (writing i k task)
    let ?wr = "writeImageFile env k (TaskImg task) encoder imgDir (Index task) (world s)"
    from writing have "task \<in># sum_list (map held (workers s))"
      using held_member [of i "workers s" task] by simp
    with op have tT: "task \<in> set tasks" by (auto simp: openTasks_def)
    with ok have r: "fst ?wr = None"
      using writeImageFile_succeeds [OF pc, of encoder task env imgDir k]
      by (simp add: allSucceed_def)
    have wf: "writtenFiles imgDir (trace (snd ?wr))
                = writtenFiles imgDir (trace (world s)) @ [fileOf encoder task]"
      by (simp add: writeImageFile_written [OF pc] r)
    have pc': "poolClean (snd ?wr)" by (rule writeImageFile_poolClean [OF pc])
    have hs: "sum_list (map held ((workers s)[i := Returned None])) + {#task#}
                = sum_list (map held (workers s))"
      using writing held_update_release [of i "workers s" task "Returned None"] by simp
    then have op1: "openTasks s
                = mset (pending s) + mset (taskChan s)
                  + sum_list (map held ((workers s)[i := Returned None])) + {#task#}"
      by (simp add: openTasks_def add.assoc)
    have ex': "Exited \<in> set ((workers s)[i := Returned None]) \<longrightarrow> Exited \<in> set (workers s)"
      using Exited_update [of "workers s" i "Returned None"] by auto
    have sub: "set_mset (mset (pending s) + mset (taskChan s)
                  + sum_list (map held ((workers s)[i := Returned None]))) \<subseteq> set tasks"
      using op unfolding op1 by auto
    have eq': "mset (writtenFiles imgDir (trace (world s))) + {#fileOf encoder task#}
                 + image_mset (fileOf encoder) (mset (pending s) + mset (taskChan s)
                     + sum_list (map held ((workers s)[i := Returned None])))
               = W + image_mset (fileOf encoder) (mset tasks)"
      using eq unfolding op1 by (simp add: ac_simps)
    from writing r wf pc' nf rc ph cl ex ex' sub eq' show ?thesis
      by (simp add: noFailure_def openTasks_def list_all_update)
  next
    case (report_ok i k)
    have "Exited \<in> set ((workers s)[i := Idle]) \<longrightarrow> Exited \<in> set (workers s)"
      using Exited_update [of "workers s" i Idle] by auto
    with report_ok pc nf rc ph cl ex op eq show ?thesis
      by (simp add: noFailure_def openTasks_def held_update_same list_all_update)
  next
    case (store i k e)
    with ph have False
      using list_all_length [of okPhase "workers s"] by auto
    then show ?thesis ..
  next
    case (report_err i k e)
    with ph have False
      using list_all_length [of okPhase "workers s"] by auto
    then show ?thesis ..
  qed
qed

lemma noFailure_start:
  "poolClean w \<Longrightarrow>
     noFailure encoder imgDir tasks (mset (writtenFiles imgDir (trace w))) (startBatch tasks n w)"
proof -
  have "sum_list (replicate n ({#} :: 'a WriteTask multiset)) = {#}"
    by (induction n) simp_all
  then show "poolClean w \<Longrightarrow>
     noFailure encoder imgDir tasks (mset (writtenFiles imgDir (trace w))) (startBatch tasks n w)"
    by (simp add: noFailure_def startBatch_def openTasks_def list_all_iff)
qed

lemma held_Exited: "list_all (\<lambda>p. p = Exited) ps \<Longrightarrow> sum_list (map held ps) = {#}"
  by (induction ps) simp_all

text \<open>
  When nothing fails, every run with at least one worker writes the file of every task
  once and sends no error.
\<close>

lemma noFailure_finished:
  assumes "noFailure encoder imgDir tasks W s" and "finished s" and "workers s \<noteq> []"
  shows "mset (writtenFiles imgDir (trace (world s))) = W + image_mset (fileOf encoder) (mset tasks)
         \<and> collectFirstError (resultChan s) None = None \<and> poolClean (world s)"
proof -
  from assms(2) have all: "list_all (\<lambda>p. p = Exited) (workers s)" and c: "taskChanClosed s"
    by (simp_all add: finished_def)
  with assms(3) have "Exited \<in> set (workers s)"
    by (cases "workers s") simp_all
  with assms(1) c have "pending s = []" "taskChan s = []"
    by (simp_all add: noFailure_def)
  with held_Exited [OF all] have "openTasks s = {#}" by (simp add: openTasks_def)
  with assms(1) have w: "mset (writtenFiles imgDir (trace (world s)))
                       = W + image_mset (fileOf encoder) (mset tasks)"
    by (simp add: noFailure_def)
  have "\<And>rs. set rs \<subseteq> {None} \<Longrightarrow> collectFirstError rs None = None"
  proof -
    fix rs :: "error option list"
    show "set rs \<subseteq> {None} \<Longrightarrow> collectFirstError rs None = None"
      by (induction rs) simp_all
  qed
  with assms(1) w show ?thesis by (simp add: noFailure_def)
qed

lemma length_workers_step: "length (workers (step env encoder imgDir a s)) = length (workers s)"
  by (cases rule: step_cases [of env encoder imgDir a s]) simp_all

lemma all_succeed_run:
  assumes "allSucceed env encoder imgDir (set tasks)" and "poolClean w" and "0 < n"
  shows "mset (writtenFiles imgDir (trace (world (runWorkers env encoder imgDir sched (startBatch tasks n w)))))
           = mset (writtenFiles imgDir (trace w)) + image_mset (fileOf encoder) (mset tasks)
         \<and> collectFirstError (resultChan (runWorkers env encoder imgDir sched (startBatch tasks n w))) None = None
         \<and> poolClean (world (runWorkers env encoder imgDir sched (startBatch tasks n w)))"
proof -
  let ?s = "runWorkers env encoder imgDir sched (startBatch tasks n w)"
  have inv: "noFailure encoder imgDir tasks (mset (writtenFiles imgDir (trace w))) ?s"
    by (rule runWorkers_invariant
          [where P = "noFailure encoder imgDir tasks (mset (writtenFiles imgDir (trace w)))"])
       (simp_all add: noFailure_step [OF assms(1)] noFailure_start [OF assms(2)])
  have len: "length (workers ?s) = n"
    by (rule runWorkers_invariant [where P = "\<lambda>s. length (workers s) = n"])
       (simp_all add: length_workers_step startBatch_def)
  with assms(3) have ne: "workers ?s \<noteq> []" by auto
  have fin: "finished ?s" by (simp add: runWorkers_def drain_finished)
  from noFailure_finished [OF inv fin ne] show ?thesis .
qed

lemma getWorkerCount_pos: "0 < getWorkerCount env"
  by (simp add: getWorkerCount_def Let_def split: sum.splits)

section \<open>The failure flag\<close>

lemma failed_step: "failed s \<Longrightarrow> failed (step env encoder imgDir a s)"
  by (cases rule: step_cases [of env encoder imgDir a s]) simp_all

lemma failureFlagged_step:
  "failureFlagged s \<Longrightarrow> failureFlagged (step env encoder imgDir a s)"
proof (cases "failed s")
  case True
  then show ?thesis by (simp add: failureFlagged_def failed_step)
next
  case False
  assume "failureFlagged s"
  with False have rc: "list_all (\<lambda>r. r = None) (resultChan s)"
    and ph: "list_all (\<lambda>p. case p of Stored e \<Rightarrow> False | _ \<Rightarrow> True) (workers s)"
    by (simp_all add: failureFlagged_def)
  show ?thesis
  proof (cases rule: step_cases [of env encoder imgDir a s])
    case (report_err i k e)
    with ph have False using list_all_length [of _ "workers s"] by fastforce
    then show ?thesis ..
  qed (use rc ph in \<open>simp_all add: failureFlagged_def list_all_update\<close>)
qed

lemma failureFlagged_start: "failureFlagged (startBatch tasks n w)"
  by (simp add: failureFlagged_def startBatch_def list_all_iff)

text \<open>A worker that has returned stays so.\<close>

lemma Exited_step:
  "i < length (workers s) \<Longrightarrow> workers s ! i = Exited \<Longrightarrow>
     i < length (workers (step env encoder imgDir a s)) \<and> workers (step env encoder imgDir a s) ! i = Exited"
  by (cases rule: step_cases [of env encoder imgDir a s]) (auto simp: nth_list_update)

lemma Exited_exec:
  "i < length (workers s) \<and> workers s ! i = Exited \<Longrightarrow>
     i < length (workers (exec env encoder imgDir sched s))
     \<and> workers (exec env encoder imgDir sched s) ! i = Exited"
  by (rule exec_invariant [where P = "\<lambda>s. i < length (workers s) \<and> workers s ! i = Exited"])
     (simp_all add: Exited_step)

section \<open>The first error\<close>

lemma collectFirstError_Some: "collectFirstError rs (Some e) = Some e"
  by (induction rs) simp_all

lemma collectFirstError_firstError: "collectFirstError rs None = firstError rs"
proof (induction rs)
  case Nil
  show ?case by (simp add: firstError_def)
next
  case (Cons r rs)
  show ?case
  proof (cases r)
    case None
    with Cons show ?thesis by (simp add: firstError_def)
  next
    case (Some e)
    then show ?thesis by (simp add: firstError_def collectFirstError_Some)
  qed
qed

lemma printed_writeImageFile:
  "printed (trace (snd (writeImageFile env k img encoder imgDir index w))) = printed (trace w)"
  by (simp add: writeImageFile_def Let_def emit_def printed_append split: prod.splits option.splits)

lemma printed_step:
  "printed (trace (world (step env encoder imgDir a s))) = printed (trace (world s))"
  by (cases rule: step_world [of env encoder imgDir a s]) (simp_all add: printed_writeImageFile)

lemma printed_run:
  "printed (trace (world (runWorkers env encoder imgDir sched s))) = printed (trace (world s))"
  by (rule runWorkers_invariant
        [where P = "\<lambda>s'. printed (trace (world s')) = printed (trace (world s))"])
     (simp_all add: printed_step)

lemma fail_example:
  "failed (exec failEnv (WebPEncoder failEnv) ''out'' failFirst (startBatch failTasks 3 world0))
   \<and> resultChan (exec failEnv (WebPEncoder failEnv) ''out'' failFirst (startBatch failTasks 3 world0))
       = [Some (Wrapf ''encode'' (External ''corrupt c''))]
   \<and> workers (exec failEnv (WebPEncoder failEnv) ''out'' failFirst (startBatch failTasks 3 world0))
       = [Running (WriteTask 0 2), Running (WriteTask 1 4), Idle]
   \<and> writtenFiles ''out'' (trace (world
        (exec failEnv (WebPEncoder failEnv) ''out'' failFirst (startBatch failTasks 3 world0)))) = []
   \<and> resultChan (exec failEnv (WebPEncoder failEnv) ''out'' (failFirst @ failRest)
         (startBatch failTasks 3 world0))
       = [Some (Wrapf ''encode'' (External ''corrupt c'')), None,
          Some (Wrapf ''encode'' (External ''corrupt a''))]
   \<and> writtenFiles ''out'' (trace (world
        (exec failEnv (WebPEncoder failEnv) ''out'' (failFirst @ failRest)
           (startBatch failTasks 3 world0)))) = [(''image_0002.webp'', [9, 4])]"
  by code_simp

text \<open>
  C8. A buffer taken from a clean pool is empty. One call of the writer on a clean pool
  leaves a clean pool that holds the buffer again (one buffer more than after the
  checkout), whether the encoder failed, the write failed or the file was written; and
  what it hands to \<^verbatim>\<open>os.WriteFile\<close> is exactly what the encoder wrote for this image. The
  pool is clean when the process starts, and in every run of a batch from a clean pool the
  pool stays clean and every file written holds the bytes the encoder wrote for the image
  of its task.
\<close>

theorem buffers_returned_empty:
  "poolClean world0
   \<and> (poolClean w \<longrightarrow>
        fst (getBuffer k (bufferPool w)) = []
        \<and> poolClean (snd (writeImageFile env k img encoder imgDir index w))
        \<and> length (bufferPool (snd (writeImageFile env k img encoder imgDir index w)))
            = Suc (length (snd (getBuffer k (bufferPool w))))
        \<and> (trace (snd (writeImageFile env k img encoder imgDir index w)) = trace w
            \<or> trace (snd (writeImageFile env k img encoder imgDir index w))
                = trace w @ [EvWriteFailed imgDir (imageName (index + 1) (Extension encoder))]
            \<or> trace (snd (writeImageFile env k img encoder imgDir index w))
                = trace w @ [EvWriteFile imgDir (imageName (index + 1) (Extension encoder))
                               (fst (Encode encoder img))]))
   \<and> (poolClean w \<longrightarrow>
        poolClean (world (runWorkers env encoder imgDir sched (startBatch tasks n w)))
        \<and> set (writtenFiles imgDir
                 (trace (world (runWorkers env encoder imgDir sched (startBatch tasks n w)))))
            \<subseteq> set (writtenFiles imgDir (trace w)) \<union> fileOf encoder ` set tasks)"
proof (intro conjI impI)
  show "poolClean world0" by (simp add: poolClean_def world0_def)
next
  assume "poolClean w"
  then show "fst (getBuffer k (bufferPool w)) = []"
    using getBuffer_clean [of "bufferPool w" k] by (simp add: poolClean_def)
next
  assume "poolClean w"
  then show "poolClean (snd (writeImageFile env k img encoder imgDir index w))"
    by (rule writeImageFile_poolClean)
next
  assume pc: "poolClean w"
  show "length (bufferPool (snd (writeImageFile env k img encoder imgDir index w)))
            = Suc (length (snd (getBuffer k (bufferPool w))))"
    by (simp add: writeImageFile_clean [OF pc] split: option.splits)
next
  assume pc: "poolClean w"
  show "trace (snd (writeImageFile env k img encoder imgDir index w)) = trace w
            \<or> trace (snd (writeImageFile env k img encoder imgDir index w))
                = trace w @ [EvWriteFailed imgDir (imageName (index + 1) (Extension encoder))]
            \<or> trace (snd (writeImageFile env k img encoder imgDir index w))
                = trace w @ [EvWriteFile imgDir (imageName (index + 1) (Extension encoder))
                               (fst (Encode encoder img))]"
    by (simp add: writeImageFile_clean [OF pc] split: option.splits)
next
  assume "poolClean w"
  from filesFromTasks_run [OF this, of encoder imgDir tasks env sched n]
  show "poolClean (world (runWorkers env encoder imgDir sched (startBatch tasks n w)))"
    by (simp add: filesFromTasks_def)
next
  assume "poolClean w"
  from filesFromTasks_run [OF this, of encoder imgDir tasks env sched n]
  show "set (writtenFiles imgDir
                 (trace (world (runWorkers env encoder imgDir sched (startBatch tasks n w)))))
            \<subseteq> set (writtenFiles imgDir (trace w)) \<union> fileOf encoder ` set tasks"
    by (simp add: filesFromTasks_def)
qed

theorem buffers_returned_empty_witness:
  "poolClean world0
   \<and> fst (writeImageFile failEnv 0 2 (WebPEncoder failEnv) ''out'' 0 world0)
       = Some (Wrapf ''encode'' (External ''corrupt a''))
   \<and> bufferPool (snd (writeImageFile failEnv 0 2 (WebPEncoder failEnv) ''out'' 0 world0)) = [[]]
   \<and> poolClean (snd (writeImageFile failEnv 0 2 (WebPEncoder failEnv) ''out'' 0 world0))
   \<and> trace (snd (writeImageFile failEnv 0 4 (WebPEncoder failEnv) ''out'' 1
        (snd (writeImageFile failEnv 0 2 (WebPEncoder failEnv) ''out'' 0 world0))))
       = [EvWriteFile ''out'' ''image_0002.webp'' [9, 4]]
   \<and> poolClean (world (runWorkers failEnv (WebPEncoder failEnv) ''out'' failFirst
        (startBatch failTasks 3 world0)))"
proof -
  have e: "fst (writeImageFile failEnv 0 2 (WebPEncoder failEnv) ''out'' 0 world0)
             = Some (Wrapf ''encode'' (External ''corrupt a''))
           \<and> bufferPool (snd (writeImageFile failEnv 0 2 (WebPEncoder failEnv) ''out'' 0 world0)) = [[]]
           \<and> trace (snd (writeImageFile failEnv 0 4 (WebPEncoder failEnv) ''out'' 1
                (snd (writeImageFile failEnv 0 2 (WebPEncoder failEnv) ''out'' 0 world0))))
               = [EvWriteFile ''out'' ''image_0002.webp'' [9, 4]]"
    by code_simp
  note T = buffers_returned_empty
    [where w = world0 and env = failEnv and k = 0 and img = 2 and encoder = "WebPEncoder failEnv"
       and imgDir = "''out''" and index = 0 and sched = failFirst and tasks = failTasks and n = 3]
  from T have p: "poolClean world0" by blast
  with T have "poolClean (snd (writeImageFile failEnv 0 2 (WebPEncoder failEnv) ''out'' 0 world0))"
    and "poolClean (world (runWorkers failEnv (WebPEncoder failEnv) ''out'' failFirst
        (startBatch failTasks 3 world0)))"
    by blast+
  with p e show ?thesis by blast
qed

lemma step_Running_entered:
  assumes "i < length (workers s)"
    and "workers (step env encoder imgDir a s) ! i = Running task"
    and "workers s ! i \<noteq> Running task"
  shows "\<not> failed s \<and> workers s ! i = Got task \<and> (\<exists>k. a = Worker i k)"
proof (cases rule: step_cases [of env encoder imgDir a s])
  case (start j k t)
  with assms show ?thesis by (cases "i = j") (auto simp: nth_list_update)
qed (use assms in \<open>auto simp: nth_list_update split: if_splits\<close>)

text \<open>
  C4. In every state of a batch, an error is on the result channel (or is about to be
  sent) only when the flag is set, and the flag, once set, stays set; a worker whose
  \<^verbatim>\<open>writeImageFile\<close> returned an error sets the flag with its next move. A worker that has
  received a task and reads the flag as set returns: it changes nothing but its own place,
  and a worker that has returned never moves again. A worker enters \<^verbatim>\<open>writeImageFile\<close> only
  by a move of its own that read the flag as not set. A worker that is in
  \<^verbatim>\<open>writeImageFile\<close> finishes the call whatever the flag says, and only such a move changes
  the pool or the trace. The last conjunct is a run of three tasks and three workers: when
  the first error is on the result channel and the flag is set, two workers are still in
  \<^verbatim>\<open>writeImageFile\<close>; afterwards one of them writes its file and the other sends a second
  error.
\<close>

theorem failure_flag_eventual_stop:
  "failureFlagged (exec env encoder imgDir sched (startBatch tasks n w))
   \<and> (failed s \<longrightarrow> failed (exec env encoder imgDir sched s))
   \<and> (i < length (workers s) \<and> workers s ! i = Returned (Some e)
        \<longrightarrow> failed (step env encoder imgDir (Worker i k) s))
   \<and> (i < length (workers s) \<and> workers s ! i = Got task \<and> failed s
        \<longrightarrow> step env encoder imgDir (Worker i k) s = s\<lparr>workers := (workers s)[i := Exited]\<rparr>)
   \<and> (i < length (workers s) \<and> workers s ! i = Exited
        \<longrightarrow> workers (exec env encoder imgDir sched s) ! i = Exited)
   \<and> (i < length (workers s) \<and> workers (step env encoder imgDir a s) ! i = Running task
        \<and> workers s ! i \<noteq> Running task
        \<longrightarrow> \<not> failed s \<and> workers s ! i = Got task \<and> (\<exists>k. a = Worker i k))
   \<and> (i < length (workers s) \<and> workers s ! i = Running task
        \<longrightarrow> step env encoder imgDir (Worker i k) s
            = s\<lparr>workers := (workers s)
                   [i := Returned (fst (writeImageFile env k (TaskImg task) encoder imgDir (Index task) (world s)))],
                world := snd (writeImageFile env k (TaskImg task) encoder imgDir (Index task) (world s))\<rparr>)
   \<and> (world (step env encoder imgDir a s) \<noteq> world s
        \<longrightarrow> (\<exists>j k task. a = Worker j k \<and> j < length (workers s) \<and> workers s ! j = Running task))
   \<and> (failed (exec failEnv (WebPEncoder failEnv) ''out'' failFirst (startBatch failTasks 3 world0))
       \<and> resultChan (exec failEnv (WebPEncoder failEnv) ''out'' failFirst (startBatch failTasks 3 world0))
           = [Some (Wrapf ''encode'' (External ''corrupt c''))]
       \<and> workers (exec failEnv (WebPEncoder failEnv) ''out'' failFirst (startBatch failTasks 3 world0))
           = [Running (WriteTask 0 2), Running (WriteTask 1 4), Idle]
       \<and> writtenFiles ''out'' (trace (world
            (exec failEnv (WebPEncoder failEnv) ''out'' failFirst (startBatch failTasks 3 world0)))) = []
       \<and> resultChan (exec failEnv (WebPEncoder failEnv) ''out'' (failFirst @ failRest)
             (startBatch failTasks 3 world0))
           = [Some (Wrapf ''encode'' (External ''corrupt c'')), None,
              Some (Wrapf ''encode'' (External ''corrupt a''))]
       \<and> writtenFiles ''out'' (trace (world
            (exec failEnv (WebPEncoder failEnv) ''out'' (failFirst @ failRest)
               (startBatch failTasks 3 world0)))) = [(''image_0002.webp'', [9, 4])])"
proof (intro conjI impI)
  show "failureFlagged (exec env encoder imgDir sched (startBatch tasks n w))"
    by (rule exec_invariant [where P = failureFlagged])
       (simp_all add: failureFlagged_step failureFlagged_start)
next
  assume "failed s"
  then show "failed (exec env encoder imgDir sched s)"
    by (rule exec_invariant [where P = failed, rotated]) (simp add: failed_step)
next
  assume "i < length (workers s) \<and> workers s ! i = Returned (Some e)"
  then show "failed (step env encoder imgDir (Worker i k) s)"
    by (simp add: workerStep_def)
next
  assume "i < length (workers s) \<and> workers s ! i = Got task \<and> failed s"
  then show "step env encoder imgDir (Worker i k) s = s\<lparr>workers := (workers s)[i := Exited]\<rparr>"
    by (simp add: workerStep_def)
next
  assume "i < length (workers s) \<and> workers s ! i = Exited"
  then show "workers (exec env encoder imgDir sched s) ! i = Exited"
    using Exited_exec [of i s env encoder imgDir sched] by simp
next
  assume a: "i < length (workers s) \<and> workers (step env encoder imgDir a s) ! i = Running task
        \<and> workers s ! i \<noteq> Running task"
  then show "\<not> failed s" using step_Running_entered [of i s env encoder imgDir a task] by blast
  from a show "workers s ! i = Got task"
    using step_Running_entered [of i s env encoder imgDir a task] by blast
  from a show "\<exists>k. a = Worker i k"
    using step_Running_entered [of i s env encoder imgDir a task] by blast
next
  assume "i < length (workers s) \<and> workers s ! i = Running task"
  then show "step env encoder imgDir (Worker i k) s
            = s\<lparr>workers := (workers s)
                   [i := Returned (fst (writeImageFile env k (TaskImg task) encoder imgDir (Index task) (world s)))],
                world := snd (writeImageFile env k (TaskImg task) encoder imgDir (Index task) (world s))\<rparr>"
    by (simp add: workerStep_def case_prod_beta)
next
  assume "world (step env encoder imgDir a s) \<noteq> world s"
  then show "\<exists>j k task. a = Worker j k \<and> j < length (workers s) \<and> workers s ! j = Running task"
    by (cases rule: step_world [of env encoder imgDir a s]) auto
qed (use fail_example in \<open>simp_all\<close>)

theorem failure_flag_eventual_stop_witness:
  "failed (exec failEnv (WebPEncoder failEnv) ''out'' failFirst (startBatch failTasks 3 world0))
   \<and> workers (exec failEnv (WebPEncoder failEnv) ''out'' failFirst (startBatch failTasks 3 world0)) ! 1
       = Running (WriteTask 1 4)
   \<and> failed (exec failEnv (WebPEncoder failEnv) ''out'' failRest
        (exec failEnv (WebPEncoder failEnv) ''out'' failFirst (startBatch failTasks 3 world0)))
   \<and> writtenFiles ''out'' (trace (world (step failEnv (WebPEncoder failEnv) ''out'' (Worker 1 0)
        (exec failEnv (WebPEncoder failEnv) ''out'' failFirst (startBatch failTasks 3 world0)))))
       = [(''image_0002.webp'', [9, 4])]
   \<and> workers (exec failEnv (WebPEncoder failEnv) ''out'' (take 11 failFirst) (startBatch failTasks 3 world0)) ! 2
       = Returned (Some (Wrapf ''encode'' (External ''corrupt c'')))
   \<and> failed (step failEnv (WebPEncoder failEnv) ''out'' (Worker 2 0)
        (exec failEnv (WebPEncoder failEnv) ''out'' (take 11 failFirst) (startBatch failTasks 3 world0)))
   \<and> workers (exec failEnv (WebPEncoder failEnv) ''out'' (take 5 failFirst) (startBatch failTasks 3 world0)) ! 0
       = Got (WriteTask 0 2)
   \<and> workers (step failEnv (WebPEncoder failEnv) ''out'' (Worker 0 0)
        (exec failEnv (WebPEncoder failEnv) ''out'' (take 5 failFirst) (startBatch failTasks 3 world0))) ! 0
       = Running (WriteTask 0 2)
   \<and> \<not> failed (exec failEnv (WebPEncoder failEnv) ''out'' (take 5 failFirst) (startBatch failTasks 3 world0))
   \<and> workers (exec failEnv (WebPEncoder failEnv) ''out''
        [Main, Main, Main, Main, Worker 0 0, Worker 1 0, Worker 2 0, Worker 2 0, Worker 2 0, Worker 2 0]
        (startBatch failTasks 3 world0)) ! 0 = Got (WriteTask 0 2)
   \<and> workers (step failEnv (WebPEncoder failEnv) ''out'' (Worker 0 0)
        (exec failEnv (WebPEncoder failEnv) ''out''
           [Main, Main, Main, Main, Worker 0 0, Worker 1 0, Worker 2 0, Worker 2 0, Worker 2 0, Worker 2 0]
           (startBatch failTasks 3 world0))) ! 0 = Exited
   \<and> workers (exec failEnv (WebPEncoder failEnv) ''out'' [Worker 0 0, Worker 1 0, Worker 0 0]
        (step failEnv (WebPEncoder failEnv) ''out'' (Worker 0 0)
          (exec failEnv (WebPEncoder failEnv) ''out''
             [Main, Main, Main, Main, Worker 0 0, Worker 1 0, Worker 2 0, Worker 2 0, Worker 2 0, Worker 2 0]
             (startBatch failTasks 3 world0)))) ! 0 = Exited"
proof -
  let ?enc = "WebPEncoder failEnv"
  let ?s0 = "startBatch failTasks 3 world0"
  let ?sW = "exec failEnv ?enc ''out'' failFirst ?s0"
  let ?sR = "exec failEnv ?enc ''out'' (take 11 failFirst) ?s0"
  let ?sA = "exec failEnv ?enc ''out'' (take 5 failFirst) ?s0"
  let ?sG = "exec failEnv ?enc ''out''
               [Main, Main, Main, Main, Worker 0 0, Worker 1 0, Worker 2 0, Worker 2 0, Worker 2 0, Worker 2 0] ?s0"
  let ?sE = "step failEnv ?enc ''out'' (Worker 0 0) ?sG"
  let ?wr = "writeImageFile failEnv 0 (TaskImg (WriteTask 1 (4::nat))) ?enc ''out''
               (Index (WriteTask 1 (4::nat))) (world ?sW)"
  have w1: "failed ?sW" by code_simp
  have w2: "1 < length (workers ?sW) \<and> workers ?sW ! 1 = Running (WriteTask 1 4)" by code_simp
  have w3: "writtenFiles ''out'' (trace (snd ?wr)) = [(''image_0002.webp'', [9, 4])]"
    by code_simp
  have r1: "2 < length (workers ?sR)
            \<and> workers ?sR ! 2 = Returned (Some (Wrapf ''encode'' (External ''corrupt c'')))"
    by code_simp
  have a1: "0 < length (workers ?sA) \<and> workers (step failEnv ?enc ''out'' (Worker 0 0) ?sA) ! 0 = Running (WriteTask 0 2)
            \<and> workers ?sA ! 0 \<noteq> Running (WriteTask 0 2)"
    by code_simp
  have a2: "workers ?sA ! 0 = Got (WriteTask 0 2)" by code_simp
  have g1: "0 < length (workers ?sG) \<and> workers ?sG ! 0 = Got (WriteTask 0 2) \<and> failed ?sG"
    by code_simp
  have e1: "0 < length (workers ?sE) \<and> workers ?sE ! 0 = Exited" by code_simp
  note T = failure_flag_eventual_stop [where env = failEnv and encoder = ?enc and imgDir = "''out''"]
  have A: "failed (exec failEnv ?enc ''out'' failRest ?sW)"
    by (rule T [where s = ?sW and sched = failRest, THEN conjunct2, THEN conjunct1, THEN mp, OF w1])
  have B: "step failEnv ?enc ''out'' (Worker 1 0) ?sW
            = ?sW\<lparr>workers := (workers ?sW)[1 := Returned (fst ?wr)], world := snd ?wr\<rparr>"
    by (rule T [where s = ?sW and i = 1 and k = 0 and task = "WriteTask 1 4",
          THEN conjunct2, THEN conjunct2, THEN conjunct2, THEN conjunct2, THEN conjunct2,
          THEN conjunct2, THEN conjunct1, THEN mp, OF w2])
  have B': "writtenFiles ''out'' (trace (world (step failEnv ?enc ''out'' (Worker 1 0) ?sW)))
              = [(''image_0002.webp'', [9, 4])]"
  proof -
    have sel: "\<And>(s :: nat batch) ws w. world (s\<lparr>workers := ws, world := w\<rparr>) = w"
      by simp
    show ?thesis by (simp only: B sel w3)
  qed
  have C: "failed (step failEnv ?enc ''out'' (Worker 2 0) ?sR)"
    by (rule T [where s = ?sR and i = 2 and k = 0 and e = "Wrapf ''encode'' (External ''corrupt c'')",
          THEN conjunct2, THEN conjunct2, THEN conjunct1, THEN mp, OF r1])
  have D: "\<not> failed ?sA"
    by (rule T [where s = ?sA and i = 0 and a = "Worker 0 0" and task = "WriteTask 0 2",
          THEN conjunct2, THEN conjunct2, THEN conjunct2, THEN conjunct2, THEN conjunct2,
          THEN conjunct1, THEN mp, OF a1, THEN conjunct1])
  have E: "?sE = ?sG\<lparr>workers := (workers ?sG)[0 := Exited]\<rparr>"
    by (rule T [where s = ?sG and i = 0 and k = 0 and task = "WriteTask 0 2",
          THEN conjunct2, THEN conjunct2, THEN conjunct2, THEN conjunct1, THEN mp, OF g1])
  have F: "workers (exec failEnv ?enc ''out'' [Worker 0 0, Worker 1 0, Worker 0 0] ?sE) ! 0 = Exited"
    by (rule T [where s = ?sE and i = 0 and sched = "[Worker 0 0, Worker 1 0, Worker 0 0]",
          THEN conjunct2, THEN conjunct2, THEN conjunct2, THEN conjunct2, THEN conjunct1,
          THEN mp, OF e1])
  show ?thesis
    by (intro conjI w1 w2 [THEN conjunct2] A B' r1 [THEN conjunct2] C a2
          a1 [THEN conjunct2, THEN conjunct1] D g1 [THEN conjunct2, THEN conjunct1]
          e1 [THEN conjunct2] F)
qed

section \<open>The result of a batch\<close>

lemma firstError_none: "list_all (\<lambda>r. r = None) rs \<Longrightarrow> firstError rs = None"
  by (induction rs) (simp_all add: firstError_def)

lemma firstError_after_successes: "firstError (replicate m None @ Some e # rest) = Some e"
  by (induction m) (simp_all add: firstError_def)

lemma processImagesConcurrently_all_succeed:
  assumes "allSucceed env encoder imgDir (set (makeTasks loaded))" and "poolClean w"
  shows "fst (processImagesConcurrently env sched loaded imgDir encoder w) = None"
  using all_succeed_run [OF assms getWorkerCount_pos, of sched env]
  by (simp add: processImagesConcurrently_def Let_def)

lemma poolClean_emit: "poolClean (emit ev w) = poolClean w"
  by (simp add: poolClean_def emit_def)

text \<open>
  C3. \<^verbatim>\<open>processImagesConcurrently\<close> returns (every run ends in a finished state), and what it
  returns is the first error among the values sent on the result channel, in the order they
  were sent: whatever number of successes arrived before it and whatever arrived after. On
  three images of which the first and the third cannot be encoded, the error returned is
  that of task 0 under one schedule and that of task 2 under another, in which task 2
  fails first. When no error was sent the result is nil; this is so in every run when no
  encoding and no write fails, also when duplicates were counted and reported before the
  batch.
\<close>

theorem batch_returns_first_error:
  "finished (runWorkers env encoder imgDir sched (startBatch (makeTasks loaded) (getWorkerCount env) w))
   \<and> fst (processImagesConcurrently env sched loaded imgDir encoder w)
       = firstError (resultChan (runWorkers env encoder imgDir sched
           (startBatch (makeTasks loaded) (getWorkerCount env) w)))
   \<and> firstError (replicate m None @ Some e # rest) = Some e
   \<and> (list_all (\<lambda>r. r = None) rs \<longrightarrow> firstError rs = None)
   \<and> (allSucceed env encoder imgDir (set (makeTasks loaded)) \<and> poolClean w
        \<longrightarrow> fst (processImagesConcurrently env sched loaded imgDir encoder w) = None)
   \<and> (0 < fst (deduplicate loaded)
        \<and> allSucceed env encoder imgDir (set (makeTasks (snd (deduplicate loaded)))) \<and> poolClean w
        \<longrightarrow> fst (processImagesConcurrently env sched (snd (deduplicate loaded)) imgDir encoder
                  (emit (EvPrintf (skippedMessage (fst (deduplicate loaded)))) w)) = None)
   \<and> fst (processImagesConcurrently failEnv [] failLoaded ''out'' (WebPEncoder failEnv) world0)
       = Some (Wrapf ''encode'' (External ''corrupt a''))
   \<and> fst (processImagesConcurrently failEnv (failFirst @ failRest) failLoaded ''out''
            (WebPEncoder failEnv) world0)
       = Some (Wrapf ''encode'' (External ''corrupt c''))"
proof (intro conjI impI)
  show "finished (runWorkers env encoder imgDir sched (startBatch (makeTasks loaded) (getWorkerCount env) w))"
    by (simp add: runWorkers_def drain_finished)
next
  show "fst (processImagesConcurrently env sched loaded imgDir encoder w)
       = firstError (resultChan (runWorkers env encoder imgDir sched
           (startBatch (makeTasks loaded) (getWorkerCount env) w)))"
    by (simp add: processImagesConcurrently_def Let_def collectFirstError_firstError)
next
  show "firstError (replicate m None @ Some e # rest) = Some e"
    by (rule firstError_after_successes)
next
  assume "list_all (\<lambda>r. r = None) rs"
  then show "firstError rs = None" by (rule firstError_none)
next
  assume "allSucceed env encoder imgDir (set (makeTasks loaded)) \<and> poolClean w"
  then show "fst (processImagesConcurrently env sched loaded imgDir encoder w) = None"
    by (simp add: processImagesConcurrently_all_succeed)
next
  assume "0 < fst (deduplicate loaded)
        \<and> allSucceed env encoder imgDir (set (makeTasks (snd (deduplicate loaded)))) \<and> poolClean w"
  then show "fst (processImagesConcurrently env sched (snd (deduplicate loaded)) imgDir encoder
                  (emit (EvPrintf (skippedMessage (fst (deduplicate loaded)))) w)) = None"
    by (simp add: processImagesConcurrently_all_succeed poolClean_emit)
next
  show "fst (processImagesConcurrently failEnv [] failLoaded ''out'' (WebPEncoder failEnv) world0)
       = Some (Wrapf ''encode'' (External ''corrupt a''))"
    by code_simp
next
  show "fst (processImagesConcurrently failEnv (failFirst @ failRest) failLoaded ''out''
            (WebPEncoder failEnv) world0)
       = Some (Wrapf ''encode'' (External ''corrupt c''))"
    by code_simp
qed

theorem batch_returns_first_error_witness:
  "list_all (\<lambda>r. r = None) [None, None :: error option]
   \<and> firstError [None, None] = None
   \<and> firstError [None, Some (Errno ENOSPC), None, Some (Errno EIO)] = Some (Errno ENOSPC)
   \<and> deduplicate sampleLoaded = (1, [\<lparr>Img = 2, FileHash = ''aa''\<rparr>, \<lparr>Img = 3, FileHash = ''cc''\<rparr>])
   \<and> fst (processImagesConcurrently sampleEnv [Main, Worker 1 0, Worker 1 0]
            (snd (deduplicate sampleLoaded)) ''out'' (WebPEncoder sampleEnv)
            (emit (EvPrintf (skippedMessage (fst (deduplicate sampleLoaded)))) world0)) = None"
proof -
  let ?enc = "WebPEncoder sampleEnv"
  have l: "list_all (\<lambda>r. r = None) [None, None :: error option]" by simp
  have d: "deduplicate sampleLoaded
             = (1, [\<lparr>Img = 2, FileHash = ''aa''\<rparr>, \<lparr>Img = 3, FileHash = ''cc''\<rparr>])"
    by (simp add: deduplicate_def sampleLoaded_def)
  have h: "0 < fst (deduplicate sampleLoaded)
           \<and> allSucceed sampleEnv ?enc ''out'' (set (makeTasks (snd (deduplicate sampleLoaded))))
           \<and> poolClean world0"
    by (simp add: d allSucceed_def WebPEncoder_def sampleEnv_def poolClean_def world0_def)
  note T = batch_returns_first_error
    [where env = sampleEnv and encoder = ?enc and imgDir = "''out''" and loaded = sampleLoaded
       and w = world0 and sched = "[Main, Worker 1 0, Worker 1 0]"]
  have A: "firstError [None, None] = None"
    by (rule T [where rs = "[None, None]", THEN conjunct2, THEN conjunct2, THEN conjunct2,
          THEN conjunct1, THEN mp, OF l])
  have "firstError (replicate 1 None @ Some (Errno ENOSPC) # [None, Some (Errno EIO)])
          = Some (Errno ENOSPC)"
    by (rule T [where m = 1 and e = "Errno ENOSPC" and rest = "[None, Some (Errno EIO)]",
          THEN conjunct2, THEN conjunct2, THEN conjunct1])
  then have B: "firstError [None, Some (Errno ENOSPC), None, Some (Errno EIO)] = Some (Errno ENOSPC)"
    by simp
  have C: "fst (processImagesConcurrently sampleEnv [Main, Worker 1 0, Worker 1 0]
            (snd (deduplicate sampleLoaded)) ''out'' ?enc
            (emit (EvPrintf (skippedMessage (fst (deduplicate sampleLoaded)))) world0)) = None"
    by (rule T [THEN conjunct2, THEN conjunct2, THEN conjunct2, THEN conjunct2, THEN conjunct2,
          THEN conjunct1, THEN mp, OF h])
  show ?thesis by (intro conjI l A B d C)
qed

section \<open>Names of the re-encoded files\<close>

lemma makeTasks_nth:
  "i < length loaded \<Longrightarrow> makeTasks loaded ! i = WriteTask i (Img (loaded ! i))"
  by (simp add: makeTasks_def)

lemma pad04_2: "pad04 (Suc (Suc 0)) = ''0002''"
  by code_simp

lemma imageName_2: "imageName (Suc (Suc 0)) ext = ''image_0002'' @ ext"
  by (simp add: imageName_def pad04_2)

lemma processImagesConcurrently_world:
  "snd (processImagesConcurrently env sched loaded imgDir encoder w)
     = world (runWorkers env encoder imgDir sched (startBatch (makeTasks loaded) (getWorkerCount env) w))"
  by (simp add: processImagesConcurrently_def Let_def)

lemma processImagesConcurrently_success:
  assumes "allSucceed env encoder imgDir (set (makeTasks loaded))" and "poolClean w"
  shows "\<exists>w'. processImagesConcurrently env sched loaded imgDir encoder w = (None, w')
          \<and> mset (writtenFiles imgDir (trace w'))
              = mset (writtenFiles imgDir (trace w)) + image_mset (fileOf encoder) (mset (makeTasks loaded))
          \<and> printed (trace w') = printed (trace w) \<and> poolClean w'"
proof -
  let ?s = "runWorkers env encoder imgDir sched (startBatch (makeTasks loaded) (getWorkerCount env) w)"
  have p: "printed (trace (world ?s)) = printed (trace w)"
    using printed_run [of env encoder imgDir sched "startBatch (makeTasks loaded) (getWorkerCount env) w"]
    by (simp add: startBatch_def)
  from all_succeed_run [OF assms getWorkerCount_pos, of sched env] p show ?thesis
    by (simp add: processImagesConcurrently_def Let_def)
qed

text \<open>
  The directory of the scenario: \<^verbatim>\<open>a.png\<close> and \<^verbatim>\<open>b.png\<close> with the same bytes, \<^verbatim>\<open>c.jpg\<close> with
  bytes of another hash, every call succeeding.
\<close>

lemma webp_scenario:
  assumes mk: "mkdir env imgDir = None \<or> (\<exists>e. mkdir env imgDir = Some e \<and> IsExist e)"
    and tmp: "mkdirTemp env = Inr tempDir"
    and ex: "extractImagesFile env filename tempDir = None"
    and rd: "readDir env tempDir = Inr [fa, fb, fc]"
    and names: "Name fa = ''a.png''" "Name fb = ''b.png''" "Name fc = ''c.jpg''"
    and reads: "readFile env tempDir ''a.png'' = Inr A" "readFile env tempDir ''b.png'' = Inr A"
      "readFile env tempDir ''c.jpg'' = Inr C"
    and hh: "hashBytes env A \<noteq> hashBytes env C"
    and dec: "decode env A = Inr imgA" "decode env C = Inr imgC"
    and enc: "webpEncode env (toRGBA env imgA) = (EA, None)" "webpEncode env (toRGBA env imgC) = (EC, None)"
    and wr: "writeFile env imgDir ''image_0001.webp'' EA = None"
      "writeFile env imgDir ''image_0002.webp'' EC = None"
    and pc: "poolClean w"
  shows "\<exists>w'. ExtractImagesFromFile env sched filename imgDir ''webp'' w = (None, w')
          \<and> mset (writtenFiles imgDir (trace w'))
              = mset (writtenFiles imgDir (trace w))
                + {#(''image_0001.webp'', EA), (''image_0002.webp'', EC)#}
          \<and> printed (trace w') = printed (trace w) @ [''skipped 1 duplicate image(s)'' @ [CHR 0x0A]]"
proof -
  let ?la = "\<lparr>Img = toRGBA env imgA, FileHash = hashBytes env A\<rparr>"
  let ?lc = "\<lparr>Img = toRGBA env imgC, FileHash = hashBytes env C\<rparr>"
  let ?w1 = "emit (EvReadDir tempDir)
               (emit (EvExtractImagesFile filename tempDir) (emit EvMkdirTemp (emit (EvMkdir imgDir) w)))"
  let ?w2 = "emit (EvReadFile tempDir ''c.jpg'')
               (emit (EvReadFile tempDir ''b.png'') (emit (EvReadFile tempDir ''a.png'') ?w1))"
  let ?w3 = "emit (EvPrintf (skippedMessage (Suc 0))) ?w2"
  have lower: "ToLower env ''webp'' = ''webp''" by code_simp
  have ge: "GetEncoder env ''webp'' = Inr (WebPEncoder env)"
    by (simp add: GetEncoder_def encoderRegistry_def lower)
  have img: "isImageFile env ''a.png''" "isImageFile env ''b.png''" "isImageFile env ''c.jpg''"
    by code_simp+
  have load: "loadImages env tempDir [fa, fb, fc] [] ?w1 = (Inr [?la, ?la, ?lc], ?w2)"
    by (simp add: names img reads dec)
  have dd: "deduplicate [?la, ?la, ?lc] = (Suc 0, [?la, ?lc])"
    using hh by (simp add: deduplicate_def)
  have mt: "makeTasks [?la, ?lc] = [WriteTask 0 (toRGBA env imgA), WriteTask (Suc 0) (toRGBA env imgC)]"
  proof -
    have "makeTasks ([] :: 'b LoadedImage list) = []" by (simp add: makeTasks_def)
    then show ?thesis by (simp add: makeTasks_Cons)
  qed
  have f0: "fileOf (WebPEncoder env) (WriteTask 0 (toRGBA env imgA)) = (''image_0001.webp'', EA)"
    by (simp add: fileOf_def WebPEncoder_def enc imageName_1)
  have f1: "fileOf (WebPEncoder env) (WriteTask (Suc 0) (toRGBA env imgC)) = (''image_0002.webp'', EC)"
    by (simp add: fileOf_def WebPEncoder_def enc imageName_2)
  have ok: "allSucceed env (WebPEncoder env) imgDir (set (makeTasks [?la, ?lc]))"
    unfolding mt by (simp add: allSucceed_def f0 f1 wr) (simp add: WebPEncoder_def enc)
  have pc3: "poolClean ?w3" using pc by (simp add: poolClean_def emit_def)
  obtain w4 where
    run: "processImagesConcurrently env sched [?la, ?lc] imgDir (WebPEncoder env) ?w3 = (None, w4)"
    and files: "mset (writtenFiles imgDir (trace w4))
              = mset (writtenFiles imgDir (trace ?w3))
                + image_mset (fileOf (WebPEncoder env)) (mset (makeTasks [?la, ?lc]))"
    and pr: "printed (trace w4) = printed (trace ?w3)"
    using processImagesConcurrently_success [OF ok pc3, of sched] by blast
  have msg: "skippedMessage (Suc 0) = ''skipped 1 duplicate image(s)'' @ [CHR 0x0A]"
    by code_simp
  have res: "ExtractImagesFromFile env sched filename imgDir ''webp'' w
               = (None, emit (EvRemoveAll tempDir) w4)"
    by (simp add: ExtractImagesFromFile_after_mkdir [OF mk] ge extractImagesConcurrent_def
        tmp ex rd load dd run Let_def del: loadImages.simps)
  have files': "mset (writtenFiles imgDir (trace (emit (EvRemoveAll tempDir) w4)))
              = mset (writtenFiles imgDir (trace w))
                + {#(''image_0001.webp'', EA), (''image_0002.webp'', EC)#}"
    using files unfolding mt by (simp add: emit_def writtenFiles_append f0 f1)
  have pr': "printed (trace (emit (EvRemoveAll tempDir) w4))
               = printed (trace w) @ [''skipped 1 duplicate image(s)'' @ [CHR 0x0A]]"
    using pr by (simp add: emit_def printed_append msg)
  from res files' pr' show ?thesis by blast
qed

text \<open>
  C2. Task \<open>i\<close> carries the \<open>i\<close>-th unique image, and the file of a task is named
  \<^verbatim>\<open>image_%04d\<close> by \<open>i + 1\<close>, followed by the extension of the encoder, and holds the
  encoding of that image. Under every schedule, every file a batch writes is the file of
  one of its tasks; and when no encoding and no write fails, the files written are the
  files of all tasks, each once. In the scenario (\<^verbatim>\<open>a.png\<close>, \<^verbatim>\<open>b.png\<close> with the same bytes,
  \<^verbatim>\<open>c.jpg\<close> with another hash, format \<^verbatim>\<open>webp\<close>, every call succeeding) every schedule gives
  no error, exactly the two files \<^verbatim>\<open>image_0001.webp\<close> and \<^verbatim>\<open>image_0002.webp\<close>, and the one
  line \<^verbatim>\<open>skipped 1 duplicate image(s)\<close>.
\<close>

theorem reencoded_names_by_index:
  "(i < length loaded \<longrightarrow>
      makeTasks loaded ! i = WriteTask i (Img (loaded ! i))
      \<and> fileOf encoder (makeTasks loaded ! i)
          = (imageName (i + 1) (Extension encoder), fst (Encode encoder (Img (loaded ! i)))))
   \<and> (poolClean w \<longrightarrow>
        set (writtenFiles imgDir (trace (snd (processImagesConcurrently env sched loaded imgDir encoder w))))
          \<subseteq> set (writtenFiles imgDir (trace w)) \<union> fileOf encoder ` set (makeTasks loaded))
   \<and> (poolClean w \<and> allSucceed env encoder imgDir (set (makeTasks loaded)) \<longrightarrow>
        mset (writtenFiles imgDir (trace (snd (processImagesConcurrently env sched loaded imgDir encoder w))))
          = mset (writtenFiles imgDir (trace w)) + image_mset (fileOf encoder) (mset (makeTasks loaded)))
   \<and> ((mkdir env imgDir = None \<or> (\<exists>e. mkdir env imgDir = Some e \<and> IsExist e))
        \<and> mkdirTemp env = Inr tempDir \<and> extractImagesFile env filename tempDir = None
        \<and> readDir env tempDir = Inr [fa, fb, fc]
        \<and> Name fa = ''a.png'' \<and> Name fb = ''b.png'' \<and> Name fc = ''c.jpg''
        \<and> readFile env tempDir ''a.png'' = Inr A \<and> readFile env tempDir ''b.png'' = Inr A
        \<and> readFile env tempDir ''c.jpg'' = Inr C \<and> hashBytes env A \<noteq> hashBytes env C
        \<and> decode env A = Inr imgA \<and> decode env C = Inr imgC
        \<and> webpEncode env (toRGBA env imgA) = (EA, None)
        \<and> webpEncode env (toRGBA env imgC) = (EC, None)
        \<and> writeFile env imgDir ''image_0001.webp'' EA = None
        \<and> writeFile env imgDir ''image_0002.webp'' EC = None
        \<and> poolClean w
      \<longrightarrow> (\<exists>w'. ExtractImagesFromFile env sched filename imgDir ''webp'' w = (None, w')
            \<and> mset (writtenFiles imgDir (trace w'))
                = mset (writtenFiles imgDir (trace w))
                  + {#(''image_0001.webp'', EA), (''image_0002.webp'', EC)#}
            \<and> printed (trace w')
                = printed (trace w) @ [''skipped 1 duplicate image(s)'' @ [CHR 0x0A]]))"
proof (intro conjI impI)
  assume "i < length loaded"
  then show "makeTasks loaded ! i = WriteTask i (Img (loaded ! i))"
    by (rule makeTasks_nth)
next
  assume "i < length loaded"
  then show "fileOf encoder (makeTasks loaded ! i)
          = (imageName (i + 1) (Extension encoder), fst (Encode encoder (Img (loaded ! i))))"
    by (simp add: makeTasks_nth fileOf_def)
next
  assume "poolClean w"
  from filesFromTasks_run [OF this, of encoder imgDir "makeTasks loaded" env sched "getWorkerCount env"]
  show "set (writtenFiles imgDir (trace (snd (processImagesConcurrently env sched loaded imgDir encoder w))))
          \<subseteq> set (writtenFiles imgDir (trace w)) \<union> fileOf encoder ` set (makeTasks loaded)"
    by (simp add: filesFromTasks_def processImagesConcurrently_world)
next
  assume a: "poolClean w \<and> allSucceed env encoder imgDir (set (makeTasks loaded))"
  then have 1: "allSucceed env encoder imgDir (set (makeTasks loaded))" and 2: "poolClean w"
    by simp_all
  from all_succeed_run [OF 1 2 getWorkerCount_pos, of sched env]
  show "mset (writtenFiles imgDir (trace (snd (processImagesConcurrently env sched loaded imgDir encoder w))))
          = mset (writtenFiles imgDir (trace w)) + image_mset (fileOf encoder) (mset (makeTasks loaded))"
    by (simp add: processImagesConcurrently_world)
next
  assume a: "(mkdir env imgDir = None \<or> (\<exists>e. mkdir env imgDir = Some e \<and> IsExist e))
        \<and> mkdirTemp env = Inr tempDir \<and> extractImagesFile env filename tempDir = None
        \<and> readDir env tempDir = Inr [fa, fb, fc]
        \<and> Name fa = ''a.png'' \<and> Name fb = ''b.png'' \<and> Name fc = ''c.jpg''
        \<and> readFile env tempDir ''a.png'' = Inr A \<and> readFile env tempDir ''b.png'' = Inr A
        \<and> readFile env tempDir ''c.jpg'' = Inr C \<and> hashBytes env A \<noteq> hashBytes env C
        \<and> decode env A = Inr imgA \<and> decode env C = Inr imgC
        \<and> webpEncode env (toRGBA env imgA) = (EA, None)
        \<and> webpEncode env (toRGBA env imgC) = (EC, None)
        \<and> writeFile env imgDir ''image_0001.webp'' EA = None
        \<and> writeFile env imgDir ''image_0002.webp'' EC = None
        \<and> poolClean w"
  show "\<exists>w'. ExtractImagesFromFile env sched filename imgDir ''webp'' w = (None, w')
            \<and> mset (writtenFiles imgDir (trace w'))
                = mset (writtenFiles imgDir (trace w))
                  + {#(''image_0001.webp'', EA), (''image_0002.webp'', EC)#}
            \<and> printed (trace w')
                = printed (trace w) @ [''skipped 1 duplicate image(s)'' @ [CHR 0x0A]]"
    by (rule webp_scenario [of env imgDir tempDir filename fa fb fc A C imgA imgC EA EC w sched])
       (use a in \<open>simp_all\<close>)
qed

theorem reencoded_names_by_index_witness:
  "makeTasks sampleLoaded ! 2 = WriteTask 2 (Img (sampleLoaded ! 2))
   \<and> fileOf (WebPEncoder sampleEnv) (makeTasks sampleLoaded ! 2)
       = (imageName (2 + 1) (Extension (WebPEncoder sampleEnv)),
          fst (Encode (WebPEncoder sampleEnv) (Img (sampleLoaded ! 2))))
   \<and> imageName (2 + 1) (Extension (WebPEncoder sampleEnv)) = ''image_0003.webp''
   \<and> (\<exists>w'. ExtractImagesFromFile sampleEnv [Worker 1 0, Main, Main, Worker 1 0, Worker 0 0]
              ''in.pdf'' ''out'' ''webp'' world0 = (None, w')
          \<and> mset (writtenFiles ''out'' (trace w'))
              = mset (writtenFiles ''out'' (trace world0))
                + {#(''image_0001.webp'', [9, 2]), (''image_0002.webp'', [9, 3])#}
          \<and> printed (trace w')
              = printed (trace world0) @ [''skipped 1 duplicate image(s)'' @ [CHR 0x0A]])"
proof -
  note T = reencoded_names_by_index
    [where loaded = sampleLoaded and i = 2 and encoder = "WebPEncoder sampleEnv"
       and env = sampleEnv and imgDir = "''out''" and tempDir = "''tmp''" and filename = "''in.pdf''"
       and fa = "\<lparr>Name = ''a.png'', IsDir = False\<rparr>" and fb = "\<lparr>Name = ''b.png'', IsDir = False\<rparr>"
       and fc = "\<lparr>Name = ''c.jpg'', IsDir = False\<rparr>" and A = "[1]" and C = "[2]"
       and imgA = 2 and imgC = 3 and EA = "[9, 2]" and EC = "[9, 3]" and w = world0
       and sched = "[Worker 1 0, Main, Main, Worker 1 0, Worker 0 0]"]
  have len: "2 < length sampleLoaded" by (simp add: sampleLoaded_def)
  have n: "imageName (2 + 1) (Extension (WebPEncoder sampleEnv)) = ''image_0003.webp''"
    by code_simp
  have hyp: "(mkdir sampleEnv ''out'' = None \<or> (\<exists>e. mkdir sampleEnv ''out'' = Some e \<and> IsExist e))
        \<and> mkdirTemp sampleEnv = Inr ''tmp'' \<and> extractImagesFile sampleEnv ''in.pdf'' ''tmp'' = None
        \<and> readDir sampleEnv ''tmp''
            = Inr [\<lparr>Name = ''a.png'', IsDir = False\<rparr>, \<lparr>Name = ''b.png'', IsDir = False\<rparr>,
                   \<lparr>Name = ''c.jpg'', IsDir = False\<rparr>]
        \<and> Name \<lparr>Name = ''a.png'', IsDir = False\<rparr> = ''a.png''
        \<and> Name \<lparr>Name = ''b.png'', IsDir = False\<rparr> = ''b.png''
        \<and> Name \<lparr>Name = ''c.jpg'', IsDir = False\<rparr> = ''c.jpg''
        \<and> readFile sampleEnv ''tmp'' ''a.png'' = Inr [1] \<and> readFile sampleEnv ''tmp'' ''b.png'' = Inr [1]
        \<and> readFile sampleEnv ''tmp'' ''c.jpg'' = Inr [2]
        \<and> hashBytes sampleEnv [1] \<noteq> hashBytes sampleEnv [2]
        \<and> decode sampleEnv [1] = Inr 2 \<and> decode sampleEnv [2] = Inr 3
        \<and> webpEncode sampleEnv (toRGBA sampleEnv 2) = ([9, 2], None)
        \<and> webpEncode sampleEnv (toRGBA sampleEnv 3) = ([9, 3], None)
        \<and> writeFile sampleEnv ''out'' ''image_0001.webp'' [9, 2] = None
        \<and> writeFile sampleEnv ''out'' ''image_0002.webp'' [9, 3] = None
        \<and> poolClean world0"
    by (simp add: sampleEnv_def sampleFiles_def hashBytes_def toRGBA_def poolClean_def world0_def)
  show ?thesis
    by (intro conjI n
          T [THEN conjunct1, THEN mp, OF len, THEN conjunct1]
          T [THEN conjunct1, THEN mp, OF len, THEN conjunct2]
          T [THEN conjunct2, THEN conjunct2, THEN conjunct2, THEN mp, OF hyp])
qed

end
